theory Spec2Isabelle
  imports Main
begin

section \<open>Data model of lambda\_function.py\<close>

text \<open>
  Times are Python \<open>datetime\<close> values in UTC and differences are \<open>timedelta\<close>
  values. Both have microsecond resolution and are compared exactly, so both are
  integers counting microseconds.
\<close>

type_synonym datetime = int
type_synonym timedelta = int

definition timedelta_days :: "int \<Rightarrow> timedelta" where
  "timedelta_days d = d * 86400000000"

definition timedelta_hours :: "int \<Rightarrow> timedelta" where
  "timedelta_hours h = h * 3600000000"

text \<open>
  An exception raised by a collaborator. The code tells one class apart
  (\<open>secretsmanager.exceptions.ResourceExistsException\<close>); every other one is only
  caught as \<open>Exception\<close>. The string is the message that \<open>{e}\<close> prints.
\<close>

datatype exn = ResourceExistsException string | OtherException string

record ec2_instance =
  InstanceId :: string
  LaunchTime :: datetime

text \<open>An entry of \<open>AccessKeyMetadata\<close> as \<open>list_access_keys\<close> returns it.\<close>

record key_meta =
  AccessKeyId :: string
  Status :: string
  CreateDate :: datetime

text \<open>The \<open>AccessKey\<close> part of the response of \<open>create_access_key\<close>.\<close>

record access_key =
  ak_AccessKeyId :: string
  ak_SecretAccessKey :: string
  ak_CreateDate :: "datetime option"

text \<open>
  The dictionary \<open>payload\<close> of \<open>store_access_key_in_secrets_manager\<close>. Its
  serialisation by \<open>json.dumps\<close> is injective on these four fields and is left
  abstract: the secret string is the payload itself.
\<close>

record payload =
  p_UserName :: string
  p_AccessKeyId :: string
  p_SecretAccessKey :: string
  p_CreateDate :: "datetime option"

text \<open>
  An f-string is kept as its source text together with the values interpolated into
  it, in order, so that what a line shows can be read off without formatting numbers
  and dates.
\<close>

datatype arg =
    S string
  | D datetime
  | TD timedelta
  | N nat
  | I int
  | B bool
  | X exn
  | L "string list"
  | Joined "(string \<times> arg list) list"

type_synonym fstring = "string \<times> arg list"

text \<open>
  What a run does to the outside, in order: the lines it prints, the mutating calls it
  issues (each with its outcome) and the webhook request.
\<close>

datatype event =
    Print string "arg list"
  | StopInstances "string list" "exn option"
  | UpdateAccessKey string string string "exn option"
  | CreateAccessKey string "exn + string"
  | CreateSecret string payload "exn option"
  | PutSecretValue string payload "exn option"
  | SlackPost string "fstring list"

datatype http_result =
    HttpOk int string
  | HTTPError int string "string option"
  | UrlException exn

text \<open>
  The collaborators. A paginator yields pages and may raise after any of them: the
  pages it yields, then the exception if there is one. The inventory is a snapshot:
  what a listing call returns depends on what is asked. The outcome of a mutating call
  depends on its arguments and on the moment it is issued (the number of events of the
  run so far), so a call may fail and the same call succeed later in the run.
\<close>

record world =
  describe_instances :: "(string \<times> string list) list \<Rightarrow> ec2_instance list list list \<times> exn option"
  stop_instances :: "nat \<Rightarrow> string list \<Rightarrow> exn + string"
  list_users :: "string list list \<times> exn option"
  list_access_keys :: "string \<Rightarrow> exn + key_meta list"
  get_access_key_last_used :: "string \<Rightarrow> exn + datetime option"
  update_access_key :: "nat \<Rightarrow> string \<Rightarrow> string \<Rightarrow> string \<Rightarrow> exn option"
  create_access_key :: "nat \<Rightarrow> string \<Rightarrow> exn + access_key"
  create_secret :: "nat \<Rightarrow> string \<Rightarrow> exn option"
  put_secret_value :: "nat \<Rightarrow> string \<Rightarrow> exn option"
  urlopen :: "nat \<Rightarrow> string \<Rightarrow> fstring list \<Rightarrow> http_result"

text \<open>The module-level settings, read from the process environment at import.\<close>

record config =
  DRY_RUN :: bool
  EC2_FILTER_TAG_KEY :: "string option"
  EC2_FILTER_TAG_VALUE :: "string option"
  IAM_ALLOWED_USERS :: "string set"
  SECRET_NAME_PREFIX :: string
  SLACK_WEBHOOK_URL :: "string option"

record ec2_stats =
  instances_to_stop :: nat
  instances_stopped :: nat

record iam_stats =
  users_processed :: nat
  keys_deactivated :: nat
  keys_rotated :: nat

record handler_result =
  status :: string

text \<open>
  \<open>created_new_key\<close> of \<open>process_user_keys\<close> is \<open>None\<close>, the access key that
  was created, or the string \<open>DRY_RUN_PLACEHOLDER\<close>.
\<close>

datatype created = NewKey access_key | DRY_RUN_PLACEHOLDER

record loop_state =
  created_new_key :: "created option"
  deactivated_count :: nat
  rotated_count :: nat

section \<open>Configuration\<close>

text \<open>\<open>str.lower\<close> on the ASCII letters; every other character is left as it is.\<close>

definition lower_char :: "char \<Rightarrow> char" where
  "lower_char c =
     (if 65 \<le> (of_char c :: nat) \<and> (of_char c :: nat) \<le> 90 then char_of (of_char c + 32 :: nat) else c)"

definition str_lower :: "string \<Rightarrow> string" where
  "str_lower s = map lower_char s"

definition getenv :: "(string \<rightharpoonup> string) \<Rightarrow> string \<Rightarrow> string \<Rightarrow> string" where
  "getenv env name dflt = (case env name of None \<Rightarrow> dflt | Some v \<Rightarrow> v)"

text \<open>Line 13: \<open>DRY_RUN = os.getenv("DRY_RUN", "true").lower() == "true"\<close>.\<close>

definition DRY_RUN_of_env :: "(string \<rightharpoonup> string) \<Rightarrow> bool" where
  "DRY_RUN_of_env env = (str_lower (getenv env ''DRY_RUN'' ''true'') = ''true'')"

text \<open>Python's truth value of an optional string: \<open>None\<close> and \<open>""\<close> are false.\<close>

definition truthy :: "string option \<Rightarrow> bool" where
  "truthy v = (case v of None \<Rightarrow> False | Some s \<Rightarrow> s \<noteq> [])"

section \<open>The program\<close>

definition print_f :: "string \<Rightarrow> arg list \<Rightarrow> event list \<Rightarrow> event list" where
  "print_f fmt args tr = tr @ [Print fmt args]"

subsection \<open>EC2: stop instances running for more than 24 hours\<close>

definition ec2_filters :: "config \<Rightarrow> (string \<times> string list) list" where
  "ec2_filters cfg =
     [(''instance-state-name'', [''running''])] @
     (if truthy (EC2_FILTER_TAG_KEY cfg) \<and> truthy (EC2_FILTER_TAG_VALUE cfg)
      then [(''tag:'' @ the (EC2_FILTER_TAG_KEY cfg), [the (EC2_FILTER_TAG_VALUE cfg)])]
      else [])"

text \<open>The body of the innermost loop, lines 74 to 82.\<close>

definition scan_instance :: "datetime \<Rightarrow> ec2_instance \<Rightarrow> string list \<times> event list \<Rightarrow> string list \<times> event list" where
  "scan_instance now inst acc =
     (let instance_id = InstanceId inst;
          launch_time = LaunchTime inst;
          running_duration = now - launch_time;
          tr1 = print_f ''Instance {instance_id} launched at {launch_time}, running for {running_duration}''
                  [S instance_id, D launch_time, TD running_duration] (snd acc)
      in if running_duration > timedelta_hours 24
         then (fst acc @ [instance_id], tr1)
         else (fst acc, tr1))"

definition scan_pages :: "datetime \<Rightarrow> ec2_instance list list list \<Rightarrow> string list \<times> event list \<Rightarrow> string list \<times> event list" where
  "scan_pages now pages acc =
     fold (\<lambda>page. fold (\<lambda>reservation. fold (scan_instance now) reservation) page) pages acc"

definition stop_old_ec2_instances :: "config \<Rightarrow> world \<Rightarrow> datetime \<Rightarrow> event list \<Rightarrow> (exn + ec2_stats) \<times> event list" where
  "stop_old_ec2_instances cfg w now tr0 =
     (let tr1 = print_f ''Checking for EC2 instances running > 24 hours...'' [] tr0;
          filters = ec2_filters cfg;
          page_iterator = describe_instances w filters;
          scanned = scan_pages now (fst page_iterator) ([], tr1);
          ids = fst scanned;
          tr2 = snd scanned
      in case snd page_iterator of
           Some e \<Rightarrow> (Inl e, tr2)
         | None \<Rightarrow>
             if ids = [] then
               (Inr \<lparr>instances_to_stop = 0, instances_stopped = 0\<rparr>,
                print_f ''No instances to stop.'' [] tr2)
             else
               (let tr3 = print_f ''Instances to stop (>24h): {instances_to_stop}'' [L ids] tr2
                in if DRY_RUN cfg then
                     (Inr \<lparr>instances_to_stop = length ids, instances_stopped = 0\<rparr>,
                      print_f ''DRY_RUN enabled: not calling StopInstances.'' [] tr3)
                   else
                     (case stop_instances w (length tr3) ids of
                        Inr response \<Rightarrow>
                          (Inr \<lparr>instances_to_stop = length ids, instances_stopped = length ids\<rparr>,
                           print_f ''StopInstances response:'' [S response]
                             (tr3 @ [StopInstances ids None]))
                      | Inl e \<Rightarrow>
                          (Inr \<lparr>instances_to_stop = length ids, instances_stopped = 0\<rparr>,
                           print_f ''Error stopping instances: {e}'' [X e]
                             (tr3 @ [StopInstances ids (Some e)])))))"

subsection \<open>IAM: deactivate inactive keys, rotate old keys, store new keys\<close>

definition deactivate_key :: "world \<Rightarrow> string \<Rightarrow> string \<Rightarrow> event list \<Rightarrow> event list" where
  "deactivate_key w username access_key_id tr =
     (let tr1 = print_f ''    Deactivating key {access_key_id} for user {username}...''
                  [S access_key_id, S username] tr
      in case update_access_key w (length tr1) username access_key_id ''Inactive'' of
           None \<Rightarrow>
             print_f ''    Key {access_key_id} deactivated.'' [S access_key_id]
               (tr1 @ [UpdateAccessKey username access_key_id ''Inactive'' None])
         | Some e \<Rightarrow>
             print_f ''    Error deactivating key {access_key_id} for user {username}: {e}''
               [S access_key_id, S username, X e]
               (tr1 @ [UpdateAccessKey username access_key_id ''Inactive'' (Some e)]))"

definition secret_name_of :: "config \<Rightarrow> string \<Rightarrow> string" where
  "secret_name_of cfg username = SECRET_NAME_PREFIX cfg @ username @ ''/access-key''"

definition payload_of :: "string \<Rightarrow> access_key \<Rightarrow> payload" where
  "payload_of username access_key =
     \<lparr>p_UserName = username,
      p_AccessKeyId = ak_AccessKeyId access_key,
      p_SecretAccessKey = ak_SecretAccessKey access_key,
      p_CreateDate = ak_CreateDate access_key\<rparr>"

definition store_access_key_in_secrets_manager :: "config \<Rightarrow> world \<Rightarrow> string \<Rightarrow> access_key \<Rightarrow> event list \<Rightarrow> event list" where
  "store_access_key_in_secrets_manager cfg w username access_key tr =
     (let secret_name = secret_name_of cfg username;
          secret_string = payload_of username access_key;
          tr1 = print_f ''    Storing new access key for {username} in Secrets Manager secret {secret_name}...''
                  [S username, S secret_name] tr
      in case create_secret w (length tr1) secret_name of
           None \<Rightarrow>
             print_f ''    Created new secret {secret_name}.'' [S secret_name]
               (tr1 @ [CreateSecret secret_name secret_string None])
         | Some (ResourceExistsException m) \<Rightarrow>
             (let tr2 = print_f ''    Secret {secret_name} already exists, writing new version...''
                          [S secret_name]
                          (tr1 @ [CreateSecret secret_name secret_string (Some (ResourceExistsException m))])
              in case put_secret_value w (length tr2) secret_name of
                   None \<Rightarrow>
                     print_f ''    Updated secret {secret_name} with new key version.'' [S secret_name]
                       (tr2 @ [PutSecretValue secret_name secret_string None])
                 | Some e \<Rightarrow>
                     print_f ''    Error updating secret {secret_name}: {e}'' [S secret_name, X e]
                       (tr2 @ [PutSecretValue secret_name secret_string (Some e)]))
         | Some (OtherException m) \<Rightarrow>
             print_f ''    Error creating secret {secret_name}: {e}'' [S secret_name, X (OtherException m)]
               (tr1 @ [CreateSecret secret_name secret_string (Some (OtherException m))]))"

definition create_new_access_key :: "config \<Rightarrow> world \<Rightarrow> string \<Rightarrow> event list \<Rightarrow> access_key option \<times> event list" where
  "create_new_access_key cfg w username tr =
     (let tr1 = print_f ''    Creating new access key for user {username}...'' [S username] tr
      in case create_access_key w (length tr1) username of
           Inr access_key \<Rightarrow>
             (let new_key_id = ak_AccessKeyId access_key;
                  tr2 = print_f ''    Created new key {new_key_id} for user {username}.''
                          [S new_key_id, S username]
                          (tr1 @ [CreateAccessKey username (Inr new_key_id)])
              in (Some access_key, store_access_key_in_secrets_manager cfg w username access_key tr2))
         | Inl e \<Rightarrow>
             (None,
              print_f ''    Error creating new access key for user {username}: {e}'' [S username, X e]
                (tr1 @ [CreateAccessKey username (Inl e)])))"

text \<open>
  The body of the loop over a user's keys, lines 162 to 206. An exception of
  \<open>get_access_key_last_used\<close> is not caught and leaves the function.
\<close>

definition process_key :: "config \<Rightarrow> world \<Rightarrow> string \<Rightarrow> datetime \<Rightarrow> timedelta \<Rightarrow> timedelta \<Rightarrow> key_meta \<Rightarrow> loop_state \<Rightarrow> event list \<Rightarrow> (exn + loop_state) \<times> event list" where
  "process_key cfg w username now inactive_threshold rotate_threshold key_meta st tr =
     (let access_key_id = AccessKeyId key_meta;
          create_date = CreateDate key_meta;
          key_age = now - create_date;
          tr1 = print_f ''  Key {access_key_id}: status={status}, create_date={create_date}, age={key_age}''
                  [S access_key_id, S (Status key_meta), D create_date, TD key_age] tr
      in case get_access_key_last_used w access_key_id of
           Inl e \<Rightarrow> (Inl e, tr1)
         | Inr last_used \<Rightarrow>
             (let inactivity_age = (case last_used of Some lu \<Rightarrow> now - lu | None \<Rightarrow> now - create_date);
                  tr2 = (case last_used of
                           Some lu \<Rightarrow>
                             print_f ''    Last used at {last_used}, inactivity_age={inactivity_age}''
                               [D lu, TD inactivity_age] tr1
                         | None \<Rightarrow>
                             print_f ''    Never used, treating inactivity_age={inactivity_age}''
                               [TD inactivity_age] tr1)
              in if inactivity_age > inactive_threshold then
                   (let tr3 = print_f ''    Key {access_key_id} inactive >60 days -> will deactivate.''
                                [S access_key_id] tr2;
                        tr4 = (if \<not> DRY_RUN cfg then deactivate_key w username access_key_id tr3
                               else print_f ''    DRY_RUN: would deactivate inactive key {access_key_id}.''
                                      [S access_key_id] tr3)
                    in (Inr (st\<lparr>deactivated_count := deactivated_count st + 1\<rparr>), tr4))
                 else if Status key_meta = ''Active'' \<and> key_age > rotate_threshold then
                   (let tr3 = print_f ''    Key {access_key_id} is active and older than 30 days -> rotation needed''
                                [S access_key_id] tr2;
                        made = (if created_new_key st = None then
                                  (if \<not> DRY_RUN cfg then
                                     (let res = create_new_access_key cfg w username tr3
                                      in (map_option NewKey (fst res), snd res))
                                   else
                                     (Some DRY_RUN_PLACEHOLDER,
                                      print_f ''    DRY_RUN: would create a new access key for this user.'' [] tr3))
                                else (created_new_key st, tr3));
                        tr5 = (if \<not> DRY_RUN cfg then deactivate_key w username access_key_id (snd made)
                               else print_f ''    DRY_RUN: would deactivate old key {access_key_id} after rotation.''
                                      [S access_key_id] (snd made))
                    in (Inr (st\<lparr>created_new_key := fst made, rotated_count := rotated_count st + 1\<rparr>), tr5))
                 else (Inr st, tr2)))"

fun keys_loop :: "config \<Rightarrow> world \<Rightarrow> string \<Rightarrow> datetime \<Rightarrow> timedelta \<Rightarrow> timedelta \<Rightarrow> key_meta list \<Rightarrow> loop_state \<Rightarrow> event list \<Rightarrow> (exn + nat \<times> nat) \<times> event list" where
  "keys_loop cfg w username now it rt [] st tr = (Inr (deactivated_count st, rotated_count st), tr)"
| "keys_loop cfg w username now it rt (key_meta # rest) st tr =
     (case process_key cfg w username now it rt key_meta st tr of
        (Inl e, tr') \<Rightarrow> (Inl e, tr')
      | (Inr st', tr') \<Rightarrow> keys_loop cfg w username now it rt rest st' tr')"

definition process_user_keys :: "config \<Rightarrow> world \<Rightarrow> string \<Rightarrow> datetime \<Rightarrow> timedelta \<Rightarrow> timedelta \<Rightarrow> event list \<Rightarrow> (exn + nat \<times> nat) \<times> event list" where
  "process_user_keys cfg w username now inactive_threshold rotate_threshold tr =
     (case list_access_keys w username of
        Inl e \<Rightarrow> (Inl e, tr)
      | Inr access_keys \<Rightarrow>
          if access_keys = [] then
            (Inr (0, 0), print_f ''User {username} has no access keys.'' [S username] tr)
          else
            keys_loop cfg w username now inactive_threshold rotate_threshold access_keys
              \<lparr>created_new_key = None, deactivated_count = 0, rotated_count = 0\<rparr> tr)"

text \<open>The loop over the users of one page, lines 129 to 140.\<close>

fun users_loop :: "config \<Rightarrow> world \<Rightarrow> datetime \<Rightarrow> timedelta \<Rightarrow> timedelta \<Rightarrow> string list \<Rightarrow> iam_stats \<Rightarrow> event list \<Rightarrow> (exn + iam_stats) \<times> event list" where
  "users_loop cfg w now it rt [] st tr = (Inr st, tr)"
| "users_loop cfg w now it rt (username # rest) st tr =
     (if IAM_ALLOWED_USERS cfg \<noteq> {} \<and> username \<notin> IAM_ALLOWED_USERS cfg then
        users_loop cfg w now it rt rest st
          (print_f ''Skipping user {username} (not in IAM_ALLOWED_USERS).'' [S username] tr)
      else
        (case process_user_keys cfg w username now it rt
                (print_f ''Processing user: {username}'' [S username] tr) of
           (Inl e, tr') \<Rightarrow> (Inl e, tr')
         | (Inr (d, r), tr') \<Rightarrow>
             users_loop cfg w now it rt rest
               \<lparr>users_processed = users_processed st + 1,
                keys_deactivated = keys_deactivated st + d,
                keys_rotated = keys_rotated st + r\<rparr> tr'))"

text \<open>The loop over the pages of \<open>list_users\<close>, line 128.\<close>

fun pages_loop :: "config \<Rightarrow> world \<Rightarrow> datetime \<Rightarrow> timedelta \<Rightarrow> timedelta \<Rightarrow> string list list \<Rightarrow> iam_stats \<Rightarrow> event list \<Rightarrow> (exn + iam_stats) \<times> event list" where
  "pages_loop cfg w now it rt [] st tr = (Inr st, tr)"
| "pages_loop cfg w now it rt (page # rest) st tr =
     (case users_loop cfg w now it rt page st tr of
        (Inl e, tr') \<Rightarrow> (Inl e, tr')
      | (Inr st', tr') \<Rightarrow> pages_loop cfg w now it rt rest st' tr')"

definition manage_iam_keys :: "config \<Rightarrow> world \<Rightarrow> datetime \<Rightarrow> event list \<Rightarrow> (exn + iam_stats) \<times> event list" where
  "manage_iam_keys cfg w now tr0 =
     (let tr1 = print_f ''Checking IAM access keys...'' [] tr0;
          inactive_threshold = timedelta_days 60;
          rotate_threshold = timedelta_days 30
      in case pages_loop cfg w now inactive_threshold rotate_threshold (fst (list_users w))
                \<lparr>users_processed = 0, keys_deactivated = 0, keys_rotated = 0\<rparr> tr1 of
           (Inl e, tr2) \<Rightarrow> (Inl e, tr2)
         | (Inr st, tr2) \<Rightarrow>
             (case snd (list_users w) of
                Some e \<Rightarrow> (Inl e, tr2)
              | None \<Rightarrow> (Inr st, tr2)))"

subsection \<open>Summary and notification\<close>

definition build_summary :: "config \<Rightarrow> datetime \<Rightarrow> ec2_stats \<Rightarrow> iam_stats \<Rightarrow> fstring list" where
  "build_summary cfg now ec2 iam =
     [(''*Cost Guardian Lambda run*'', []),
      (''Time (UTC): `{now.isoformat()}`'', [D now]),
      (''DRY_RUN: `{DRY_RUN}`'', [B (DRY_RUN cfg)]),
      ('''', []),
      (''*EC2*'', []),
      (''- Candidates to stop (>24h): `{ec2_stats[instances_to_stop]}`'', [N (instances_to_stop ec2)]),
      (''- Actually stopped: `{ec2_stats[instances_stopped]}`'', [N (instances_stopped ec2)]),
      ('''', []),
      (''*IAM Access Keys*'', []),
      (''- Users processed: `{iam_stats[users_processed]}`'', [N (users_processed iam)]),
      (''- Keys deactivated (>60d inactive): `{iam_stats[keys_deactivated]}`'', [N (keys_deactivated iam)]),
      (''- Keys rotated (>30d age): `{iam_stats[keys_rotated]}`'', [N (keys_rotated iam)])]"

definition send_slack_notification :: "config \<Rightarrow> world \<Rightarrow> fstring list \<Rightarrow> event list \<Rightarrow> event list" where
  "send_slack_notification cfg w text tr =
     (if \<not> truthy (SLACK_WEBHOOK_URL cfg) then
        print_f ''SLACK_WEBHOOK_URL not set; skipping Slack notification.'' [] tr
      else
        (let url = the (SLACK_WEBHOOK_URL cfg);
             tr1 = tr @ [SlackPost url text]
         in case urlopen w (length tr) url text of
              HttpOk code body \<Rightarrow>
                print_f ''Slack response status={resp.status}, body={body}'' [I code, S body] tr1
            | HTTPError code reason body \<Rightarrow>
                (let tr2 = print_f ''HTTP error sending Slack notification: {e.code} {e.reason}''
                             [I code, S reason] tr1
                 in case body of Some b \<Rightarrow> print_f ''{}'' [S b] tr2 | None \<Rightarrow> tr2)
            | UrlException e \<Rightarrow>
                print_f ''Error sending Slack notification: {e}'' [X e] tr1))"

subsection \<open>The entry point\<close>

text \<open>
  \<open>now\<close> is the clock reading of line 32; \<open>event\<close> and \<open>context\<close> are never read.
\<close>

definition lambda_handler :: "config \<Rightarrow> world \<Rightarrow> datetime \<Rightarrow> event list \<Rightarrow> (exn + handler_result) \<times> event list" where
  "lambda_handler cfg w now tr0 =
     (let tr1 = print_f ''Lambda started at {now.isoformat()}, DRY_RUN={DRY_RUN}''
                  [D now, B (DRY_RUN cfg)] tr0
      in case stop_old_ec2_instances cfg w now tr1 of
           (Inl e, tr2) \<Rightarrow> (Inl e, tr2)
         | (Inr ec2, tr2) \<Rightarrow>
             (case manage_iam_keys cfg w now tr2 of
                (Inl e, tr3) \<Rightarrow> (Inl e, tr3)
              | (Inr iam, tr3) \<Rightarrow>
                  (let tr4 = print_f ''Lambda run complete.'' [] tr3;
                       summary = build_summary cfg now ec2 iam;
                       tr5 = print_f ''Summary:'' [Joined summary] tr4
                   in (Inr \<lparr>status = ''ok''\<rparr>, send_slack_notification cfg w summary tr5))))"

section \<open>Observations on a run\<close>

text \<open>The mutating calls: instance stop, key deactivation, key creation, secret writes.\<close>

fun is_mutation :: "event \<Rightarrow> bool" where
  "is_mutation (Print fmt args) = False"
| "is_mutation (SlackPost url text) = False"
| "is_mutation (StopInstances ids r) = True"
| "is_mutation (UpdateAccessKey u k s r) = True"
| "is_mutation (CreateAccessKey u r) = True"
| "is_mutation (CreateSecret n p r) = True"
| "is_mutation (PutSecretValue n p r) = True"

definition mutations :: "event list \<Rightarrow> event list" where
  "mutations tr = filter is_mutation tr"

text \<open>A call of \<open>create_access_key\<close> for the user, whatever its outcome.\<close>

fun is_create_call :: "string \<Rightarrow> event \<Rightarrow> bool" where
  "is_create_call u (CreateAccessKey v r) = (v = u)"
| "is_create_call u e = False"

text \<open>A call of \<open>create_access_key\<close> for the user that returned a new credential.\<close>

fun is_created :: "string \<Rightarrow> event \<Rightarrow> bool" where
  "is_created u (CreateAccessKey v (Inr k)) = (v = u)"
| "is_created u e = False"

definition created_for :: "string \<Rightarrow> event list \<Rightarrow> nat" where
  "created_for u tr = length (filter (is_created u) tr)"

text \<open>The lines that the scan of the instance inventory prints, one for each instance.\<close>

definition instance_lines :: "datetime \<Rightarrow> ec2_instance list \<Rightarrow> event list" where
  "instance_lines now insts =
     map (\<lambda>inst. Print ''Instance {instance_id} launched at {launch_time}, running for {running_duration}''
                    [S (InstanceId inst), D (LaunchTime inst), TD (now - LaunchTime inst)]) insts"

text \<open>
  Whether the loop over a user's keys may still create a key: one while
  \<open>created_new_key\<close> is \<open>None\<close>, zero afterwards.
\<close>

definition slot :: "loop_state \<Rightarrow> nat" where
  "slot st = (if created_new_key st = None then 1 else 0)"

text \<open>The two counters that \<open>process_user_keys\<close> returns.\<close>

definition counts :: "loop_state \<Rightarrow> nat \<times> nat" where
  "counts st = (deactivated_count st, rotated_count st)"

text \<open>What is logged and what is sent to the webhook.\<close>

fun is_output :: "event \<Rightarrow> bool" where
  "is_output (Print fmt args) = True"
| "is_output (SlackPost url text) = True"
| "is_output e = False"

definition outputs :: "event list \<Rightarrow> event list" where
  "outputs tr = filter is_output tr"

text \<open>An event with the secret value of a payload written to the secret store blanked.\<close>

fun hide :: "event \<Rightarrow> event" where
  "hide (CreateSecret n p r) = CreateSecret n (p\<lparr>p_SecretAccessKey := []\<rparr>) r"
| "hide (PutSecretValue n p r) = PutSecretValue n (p\<lparr>p_SecretAccessKey := []\<rparr>) r"
| "hide e = e"

text \<open>
  The same world in which the \<open>k\<close>-th event's key creation for user \<open>u\<close> returns the
  secret value \<open>g k u\<close> instead.
\<close>

definition resecret :: "(nat \<Rightarrow> string \<Rightarrow> string) \<Rightarrow> world \<Rightarrow> world" where
  "resecret g w =
     w\<lparr>create_access_key :=
         (\<lambda>k u. map_sum id (\<lambda>ak. ak\<lparr>ak_SecretAccessKey := g k u\<rparr>) (create_access_key w k u))\<rparr>"

text \<open>A created key, and the state of the loop over a user's keys, with the secret value blanked.\<close>

definition blank_key :: "access_key \<Rightarrow> access_key" where
  "blank_key ak = ak\<lparr>ak_SecretAccessKey := []\<rparr>"

fun blank_created :: "created \<Rightarrow> created" where
  "blank_created (NewKey ak) = NewKey (blank_key ak)"
| "blank_created DRY_RUN_PLACEHOLDER = DRY_RUN_PLACEHOLDER"

definition blank_state :: "loop_state \<Rightarrow> loop_state" where
  "blank_state st = st\<lparr>created_new_key := map_option blank_created (created_new_key st)\<rparr>"

text \<open>The inventory of \<open>w\<close> with the outcomes of the mutating calls taken from \<open>m\<close>.\<close>

definition with_mutations :: "world \<Rightarrow> world \<Rightarrow> world" where
  "with_mutations w m =
     w\<lparr>stop_instances := stop_instances m,
       update_access_key := update_access_key m,
       create_access_key := create_access_key m,
       create_secret := create_secret m,
       put_secret_value := put_secret_value m\<rparr>"

text \<open>
  No listing call of a run raises: the two paginators end without an exception, and
  for every user that is processed the keys are listed and the last-used date of each
  key is read.
\<close>

definition keys_listing_ok :: "world \<Rightarrow> string \<Rightarrow> bool" where
  "keys_listing_ok w u =
     (case list_access_keys w u of
        Inl e \<Rightarrow> False
      | Inr ks \<Rightarrow> list_all (\<lambda>k. \<not> isl (get_access_key_last_used w (AccessKeyId k))) ks)"

definition skipped :: "config \<Rightarrow> string \<Rightarrow> bool" where
  "skipped cfg u = (IAM_ALLOWED_USERS cfg \<noteq> {} \<and> u \<notin> IAM_ALLOWED_USERS cfg)"

definition listing_ok :: "config \<Rightarrow> world \<Rightarrow> bool" where
  "listing_ok cfg w =
     (snd (describe_instances w (ec2_filters cfg)) = None \<and>
      snd (list_users w) = None \<and>
      list_all (\<lambda>u. skipped cfg u \<or> keys_listing_ok w u) (concat (fst (list_users w))))"

section \<open>The policy of the specification\<close>

text \<open>
  The decision table of section 4.1 of the specification, in its words: the
  inactivity age is \<open>now - lastUsed\<close> when the key was used and \<open>now - createdAt\<close>
  otherwise; first match wins.
\<close>

datatype decision = NoAction | Deactivate | Rotate

definition spec_inactivity_age :: "datetime \<Rightarrow> key_meta \<Rightarrow> datetime option \<Rightarrow> timedelta" where
  "spec_inactivity_age now cred lastUsed =
     (case lastUsed of Some t \<Rightarrow> now - t | None \<Rightarrow> now - CreateDate cred)"

definition spec_decision :: "datetime \<Rightarrow> key_meta \<Rightarrow> datetime option \<Rightarrow> decision" where
  "spec_decision now cred lastUsed =
     (if spec_inactivity_age now cred lastUsed > timedelta_days 60 then Deactivate
      else if Status cred = ''Active'' \<and> now - CreateDate cred > timedelta_days 30 then Rotate
      else NoAction)"

text \<open>
  The stop-candidate set of section 4.4 of the specification: the instances of the
  inventory whose running duration, \<open>now\<close> minus launch time, exceeds 24 hours.
\<close>

definition spec_candidates :: "datetime \<Rightarrow> ec2_instance list list list \<Rightarrow> ec2_instance list" where
  "spec_candidates now pages =
     filter (\<lambda>inst. now - LaunchTime inst > timedelta_hours 24) (concat (concat pages))"

section \<open>A sample account\<close>

definition now0 :: datetime where
  "now0 = timedelta_days 1000"

definition cfg0 :: config where
  "cfg0 = \<lparr>DRY_RUN = False, EC2_FILTER_TAG_KEY = None, EC2_FILTER_TAG_VALUE = None,
           IAM_ALLOWED_USERS = {}, SECRET_NAME_PREFIX = ''iam/user/'', SLACK_WEBHOOK_URL = None\<rparr>"

text \<open>
  Two running instances, launched 25 and 23 hours ago. Alice has a key unused for 90
  days and an active key of 40 days used 5 days ago; Bob has a key of 10 days never
  used; Carol has two active keys of 40 days, both used yesterday. Every call succeeds.
\<close>

definition world0 :: world where
  "world0 =
     \<lparr>describe_instances =
        (\<lambda>filters. ([[[\<lparr>InstanceId = ''i-25h'', LaunchTime = now0 - timedelta_hours 25\<rparr>,
                        \<lparr>InstanceId = ''i-23h'', LaunchTime = now0 - timedelta_hours 23\<rparr>]]], None)),
      stop_instances = (\<lambda>k ids. Inr ''stopping''),
      list_users = ([[''alice'', ''bob''], [''carol'']], None),
      list_access_keys =
        (\<lambda>u. if u = ''alice'' then
                 Inr [\<lparr>AccessKeyId = ''A1'', Status = ''Active'', CreateDate = now0 - timedelta_days 100\<rparr>,
                      \<lparr>AccessKeyId = ''A2'', Status = ''Active'', CreateDate = now0 - timedelta_days 40\<rparr>]
              else if u = ''bob'' then
                 Inr [\<lparr>AccessKeyId = ''B1'', Status = ''Active'', CreateDate = now0 - timedelta_days 10\<rparr>]
              else if u = ''carol'' then
                 Inr [\<lparr>AccessKeyId = ''C1'', Status = ''Active'', CreateDate = now0 - timedelta_days 40\<rparr>,
                      \<lparr>AccessKeyId = ''C2'', Status = ''Active'', CreateDate = now0 - timedelta_days 40\<rparr>]
              else Inr []),
      get_access_key_last_used =
        (\<lambda>k. if k = ''A1'' then Inr (Some (now0 - timedelta_days 90))
              else if k = ''A2'' then Inr (Some (now0 - timedelta_days 5))
              else if k = ''B1'' then Inr None
              else Inr (Some (now0 - timedelta_days 1))),
      update_access_key = (\<lambda>k u a s. None),
      create_access_key =
        (\<lambda>k u. Inr \<lparr>ak_AccessKeyId = ''NEW'', ak_SecretAccessKey = ''hunter2'', ak_CreateDate = Some now0\<rparr>),
      create_secret = (\<lambda>k n. None),
      put_secret_value = (\<lambda>k n. None),
      urlopen = (\<lambda>k url text. HttpOk 200 ''ok'')\<rparr>"

text \<open>
  The sample account while key creation is throttled: every \<open>create_access_key\<close>
  issued before the 34th event of the run raises, the later ones succeed.
\<close>

definition world_throttled :: world where
  "world_throttled =
     world0\<lparr>create_access_key :=
       (\<lambda>k u. if k < 34 then Inl (OtherException ''Throttling'') else create_access_key world0 k u)\<rparr>"

text \<open>The sample account when the caller may not list the users.\<close>

definition world_denied :: world where
  "world_denied = world0\<lparr>list_users := ([], Some (OtherException ''AccessDenied''))\<rparr>"


section \<open>The dry-run flag\<close>

lemma lower_char_upper:
  assumes "65 \<le> (of_char c :: nat)" "(of_char c :: nat) \<le> 90"
  shows "lower_char c = d \<longleftrightarrow> of_char c + 32 = (of_char d :: nat)"
proof -
  have "take_bit 8 (of_char c + 32 :: nat) = of_char c + 32"
    using assms by (simp add: take_bit_eq_mod)
  then have "char_of (of_char c + 32 :: nat) = d \<longleftrightarrow> of_char c + 32 = (of_char d :: nat)"
    by (simp add: char_of_eq_iff)
  moreover have "lower_char c = char_of (of_char c + 32 :: nat)"
    unfolding lower_char_def by (rule if_P) (rule conjI [OF assms])
  ultimately show ?thesis by simp
qed

lemma lower_char_other:
  assumes "\<not> (65 \<le> (of_char c :: nat) \<and> (of_char c :: nat) \<le> 90)"
  shows "lower_char c = c"
  unfolding lower_char_def using assms by (rule if_not_P)

lemma lower_char_letter:
  assumes d: "(of_char d :: nat) = of_char u + 32" and u: "65 \<le> (of_char u :: nat)" "(of_char u :: nat) \<le> 90"
  shows "lower_char c = d \<longleftrightarrow> c = d \<or> c = u"
proof (cases "65 \<le> (of_char c :: nat) \<and> (of_char c :: nat) \<le> 90")
  case True
  then have "lower_char c = d \<longleftrightarrow> of_char c + 32 = (of_char d :: nat)"
    by (simp only: lower_char_upper)
  also have "\<dots> \<longleftrightarrow> (of_char c :: nat) = of_char u"
    using d by linarith
  also have "\<dots> \<longleftrightarrow> c = u" by (rule of_char_eq_iff)
  finally have 1: "lower_char c = d \<longleftrightarrow> c = u" .
  have "c \<noteq> d"
  proof
    assume "c = d"
    then have "(of_char c :: nat) = of_char u + 32" using d by simp
    with True u show False by linarith
  qed
  with 1 show ?thesis by blast
next
  case False
  then have 1: "lower_char c = c" by (rule lower_char_other)
  have "c \<noteq> u" using False u by blast
  with 1 show ?thesis by auto
qed

lemma lower_t: "lower_char c = CHR ''t'' \<longleftrightarrow> c = CHR ''t'' \<or> c = CHR ''T''"
  by (rule lower_char_letter) simp_all
lemma lower_r: "lower_char c = CHR ''r'' \<longleftrightarrow> c = CHR ''r'' \<or> c = CHR ''R''"
  by (rule lower_char_letter) simp_all
lemma lower_u: "lower_char c = CHR ''u'' \<longleftrightarrow> c = CHR ''u'' \<or> c = CHR ''U''"
  by (rule lower_char_letter) simp_all
lemma lower_e: "lower_char c = CHR ''e'' \<longleftrightarrow> c = CHR ''e'' \<or> c = CHR ''E''"
  by (rule lower_char_letter) simp_all

lemma str_lower_true:
  "str_lower v = ''true'' \<longleftrightarrow>
     (\<exists>a b c d. v = [a, b, c, d] \<and> a \<in> {CHR ''t'', CHR ''T''} \<and> b \<in> {CHR ''r'', CHR ''R''}
        \<and> c \<in> {CHR ''u'', CHR ''U''} \<and> d \<in> {CHR ''e'', CHR ''E''})"
proof
  assume "str_lower v = ''true''"
  then obtain a b c d where v: "v = [a, b, c, d]"
    and l: "lower_char a = CHR ''t''" "lower_char b = CHR ''r''" "lower_char c = CHR ''u''" "lower_char d = CHR ''e''"
    unfolding str_lower_def by (auto simp only: map_eq_Cons_conv map_is_Nil_conv)
  from l have "a \<in> {CHR ''t'', CHR ''T''}" "b \<in> {CHR ''r'', CHR ''R''}"
    "c \<in> {CHR ''u'', CHR ''U''}" "d \<in> {CHR ''e'', CHR ''E''}"
    by (simp_all only: lower_t lower_r lower_u lower_e insert_iff empty_iff simp_thms)
  with v show "\<exists>a b c d. v = [a, b, c, d] \<and> a \<in> {CHR ''t'', CHR ''T''} \<and> b \<in> {CHR ''r'', CHR ''R''}
        \<and> c \<in> {CHR ''u'', CHR ''U''} \<and> d \<in> {CHR ''e'', CHR ''E''}" by blast
next
  assume "\<exists>a b c d. v = [a, b, c, d] \<and> a \<in> {CHR ''t'', CHR ''T''} \<and> b \<in> {CHR ''r'', CHR ''R''}
        \<and> c \<in> {CHR ''u'', CHR ''U''} \<and> d \<in> {CHR ''e'', CHR ''E''}"
  then obtain a b c d where v: "v = [a, b, c, d]"
    and m: "a \<in> {CHR ''t'', CHR ''T''}" "b \<in> {CHR ''r'', CHR ''R''}"
    "c \<in> {CHR ''u'', CHR ''U''}" "d \<in> {CHR ''e'', CHR ''E''}" by blast
  from m have "lower_char a = CHR ''t''" "lower_char b = CHR ''r''" "lower_char c = CHR ''u''" "lower_char d = CHR ''e''"
    by (simp_all only: lower_t lower_r lower_u lower_e insert_iff empty_iff simp_thms)
  with v show "str_lower v = ''true''"
    unfolding str_lower_def by (simp only: list.map)
qed

text \<open>
  Claim C10. Dry-run is on exactly when \<open>DRY_RUN\<close> is absent from the environment or
  is the word \<open>true\<close> in any mix of upper and lower case. The values \<open>1\<close>,
  \<open>yes\<close>, \<open>true\<close> with a space before or after it, and the empty string all
  switch dry-run off.
\<close>

theorem dry_run_flag:
  "(DRY_RUN_of_env env \<longleftrightarrow>
      env ''DRY_RUN'' = None \<or>
      (\<exists>a b c d. env ''DRY_RUN'' = Some [a, b, c, d] \<and> a \<in> {CHR ''t'', CHR ''T''} \<and> b \<in> {CHR ''r'', CHR ''R''}
        \<and> c \<in> {CHR ''u'', CHR ''U''} \<and> d \<in> {CHR ''e'', CHR ''E''}))
   \<and> \<not> DRY_RUN_of_env [''DRY_RUN'' \<mapsto> ''1'']
   \<and> \<not> DRY_RUN_of_env [''DRY_RUN'' \<mapsto> ''yes'']
   \<and> \<not> DRY_RUN_of_env [''DRY_RUN'' \<mapsto> '' true'']
   \<and> \<not> DRY_RUN_of_env [''DRY_RUN'' \<mapsto> ''true '']
   \<and> \<not> DRY_RUN_of_env [''DRY_RUN'' \<mapsto> '''']
   \<and> DRY_RUN_of_env [''DRY_RUN'' \<mapsto> ''TrUe'']"
proof -
  have t: "str_lower ''true'' = ''true''"
    by (simp only: str_lower_true) blast
  have main: "DRY_RUN_of_env e \<longleftrightarrow>
      e ''DRY_RUN'' = None \<or>
      (\<exists>a b c d. e ''DRY_RUN'' = Some [a, b, c, d] \<and> a \<in> {CHR ''t'', CHR ''T''} \<and> b \<in> {CHR ''r'', CHR ''R''}
        \<and> c \<in> {CHR ''u'', CHR ''U''} \<and> d \<in> {CHR ''e'', CHR ''E''})" for e
  proof (cases "e ''DRY_RUN''")
    case None
    then show ?thesis by (simp add: DRY_RUN_of_env_def getenv_def t)
  next
    case (Some v)
    then show ?thesis by (simp add: DRY_RUN_of_env_def getenv_def str_lower_true)
  qed
  show ?thesis
    apply (intro conjI)
          apply (rule main)
         apply (simp_all add: main)
    done
qed

section \<open>Traces\<close>

lemma mutations_Nil [simp]: "mutations [] = []"
  by (simp add: mutations_def)

lemma mutations_append [simp]: "mutations (xs @ ys) = mutations xs @ mutations ys"
  by (simp add: mutations_def)

lemma mutations_Cons [simp]:
  "mutations (e # tr) = (if is_mutation e then e # mutations tr else mutations tr)"
  by (simp add: mutations_def)

lemma mutations_print_f [simp]: "mutations (print_f fmt args tr) = mutations tr"
  by (simp add: print_f_def)

lemma length_print_f [simp]: "length (print_f fmt args tr) = Suc (length tr)"
  by (simp add: print_f_def)

lemma mutations_deactivate_key:
  "mutations (deactivate_key w u k tr) =
     mutations tr @ [UpdateAccessKey u k ''Inactive'' (update_access_key w (Suc (length tr)) u k ''Inactive'')]"
  by (simp add: deactivate_key_def Let_def split: option.split)

lemma length_instance_lines [simp]: "length (instance_lines now insts) = length insts"
  by (simp add: instance_lines_def)

lemma with_mutations_inventory [simp]:
  "describe_instances (with_mutations w m) = describe_instances w"
  "list_users (with_mutations w m) = list_users w"
  "list_access_keys (with_mutations w m) = list_access_keys w"
  "get_access_key_last_used (with_mutations w m) = get_access_key_last_used w"
  by (simp_all add: with_mutations_def)

lemma with_mutations_self [simp]: "with_mutations w w = w"
  by (simp add: with_mutations_def)

text \<open>The definitions that a run on a concrete account unfolds.\<close>

lemmas run_defs =
  lambda_handler_def stop_old_ec2_instances_def scan_pages_def scan_instance_def ec2_filters_def truthy_def
  manage_iam_keys_def process_user_keys_def process_key_def deactivate_key_def
  create_new_access_key_def store_access_key_in_secrets_manager_def secret_name_of_def payload_of_def
  send_slack_notification_def build_summary_def print_f_def
  timedelta_days_def timedelta_hours_def Let_def

lemma world0_counters:
  "fst (stop_old_ec2_instances (cfg0\<lparr>DRY_RUN := False\<rparr>) world0 now0 []) =
     Inr \<lparr>instances_to_stop = 1, instances_stopped = 1\<rparr>"
  "fst (manage_iam_keys (cfg0\<lparr>DRY_RUN := False\<rparr>) world0 now0 []) =
     Inr \<lparr>users_processed = 3, keys_deactivated = 1, keys_rotated = 3\<rparr>"
  by (simp_all add: run_defs cfg0_def world0_def now0_def)

section \<open>The policy decision\<close>

text \<open>
  Claim C1. When the last-used date of a key can be read, one pass of the loop over a
  user's keys does what the decision table of the specification says, first match
  first. On \<open>Deactivate\<close> the deactivated counter goes up by one, nothing else of
  the loop's state changes and the only mutating call (none in dry-run) is the
  deactivation of this key, so the key is not rotated as well. On \<open>Rotate\<close> the
  rotated counter goes up by one and the deactivated counter stays. On \<open>NoAction\<close>
  the state stays and no mutating call is issued.
\<close>

theorem policy_decision:
  assumes "get_access_key_last_used w (AccessKeyId k) = Inr lu"
  shows "\<exists>st' tr'. process_key cfg w u now (timedelta_days 60) (timedelta_days 30) k st tr = (Inr st', tr') \<and>
     (case spec_decision now k lu of
        Deactivate \<Rightarrow>
          st' = st\<lparr>deactivated_count := deactivated_count st + 1\<rparr> \<and>
          (\<exists>r. mutations tr' =
             mutations tr @ (if DRY_RUN cfg then [] else [UpdateAccessKey u (AccessKeyId k) ''Inactive'' r]))
      | Rotate \<Rightarrow>
          deactivated_count st' = deactivated_count st \<and> rotated_count st' = rotated_count st + 1
      | NoAction \<Rightarrow> st' = st \<and> mutations tr' = mutations tr)"
proof (cases "spec_decision now k lu")
  case NoAction
  then show ?thesis using assms
    by (auto simp: process_key_def spec_decision_def spec_inactivity_age_def Let_def
          split: if_splits option.splits)
next
  case Deactivate
  then show ?thesis using assms
    by (auto simp: process_key_def spec_decision_def spec_inactivity_age_def Let_def mutations_deactivate_key
          split: if_splits option.splits)
next
  case Rotate
  then show ?thesis using assms
    by (auto simp: process_key_def spec_decision_def spec_inactivity_age_def Let_def
          split: if_splits option.splits)
qed

text \<open>
  The three decisions on the sample account: Alice's key unused for 90 days is
  deactivated, her key of 40 days used 5 days ago is rotated, Bob's key of 10 days
  that was never used is left alone.
\<close>

lemma spec_decision_samples:
  "spec_decision now0 \<lparr>AccessKeyId = ''A1'', Status = ''Active'', CreateDate = now0 - timedelta_days 100\<rparr>
     (Some (now0 - timedelta_days 90)) = Deactivate"
  "spec_decision now0 \<lparr>AccessKeyId = ''A2'', Status = ''Active'', CreateDate = now0 - timedelta_days 40\<rparr>
     (Some (now0 - timedelta_days 5)) = Rotate"
  "spec_decision now0 \<lparr>AccessKeyId = ''B1'', Status = ''Active'', CreateDate = now0 - timedelta_days 10\<rparr>
     None = NoAction"
  by (simp_all add: spec_decision_def spec_inactivity_age_def timedelta_days_def now0_def)

theorem policy_decision_witness:
  "get_access_key_last_used world0 ''A2'' = Inr (Some (now0 - timedelta_days 5)) \<and>
   (\<exists>st' tr'.
      process_key cfg0 world0 ''alice'' now0 (timedelta_days 60) (timedelta_days 30)
        \<lparr>AccessKeyId = ''A2'', Status = ''Active'', CreateDate = now0 - timedelta_days 40\<rparr>
        \<lparr>created_new_key = None, deactivated_count = 1, rotated_count = 0\<rparr> [] = (Inr st', tr') \<and>
      deactivated_count st' = 1 \<and> rotated_count st' = 1)"
proof -
  have r: "get_access_key_last_used world0
             (AccessKeyId \<lparr>AccessKeyId = ''A2'', Status = ''Active'', CreateDate = now0 - timedelta_days 40\<rparr>) =
           Inr (Some (now0 - timedelta_days 5))"
    by (simp add: world0_def)
  show ?thesis
    using r policy_decision [OF r, of cfg0 "''alice''" now0
        "\<lparr>created_new_key = None, deactivated_count = 1, rotated_count = 0\<rparr>" "[]"]
    by (simp add: spec_decision_samples)
qed

section \<open>The scan of the instance inventory\<close>

lemma fold_scan_instance:
  "fold (scan_instance now) insts acc =
     (fst acc @ map InstanceId (filter (\<lambda>i. timedelta_hours 24 < now - LaunchTime i) insts),
      snd acc @ instance_lines now insts)"
  by (induction insts arbitrary: acc)
     (simp_all add: scan_instance_def instance_lines_def print_f_def Let_def)

lemma fold_scan_reservations:
  "fold (\<lambda>reservation. fold (scan_instance now) reservation) page acc =
     (fst acc @ map InstanceId (filter (\<lambda>i. timedelta_hours 24 < now - LaunchTime i) (concat page)),
      snd acc @ instance_lines now (concat page))"
  by (induction page arbitrary: acc) (simp_all add: fold_scan_instance instance_lines_def)

lemma scan_pages_eq:
  "scan_pages now pages acc =
     (fst acc @ map InstanceId (filter (\<lambda>i. timedelta_hours 24 < now - LaunchTime i) (concat (concat pages))),
      snd acc @ instance_lines now (concat (concat pages)))"
  unfolding scan_pages_def
  by (induction pages arbitrary: acc) (simp_all add: fold_scan_reservations instance_lines_def)

lemma stop_old_ec2_instances_fst_cong:
  assumes "describe_instances w' (ec2_filters cfg') = describe_instances w (ec2_filters cfg)"
  shows "map_sum id instances_to_stop (fst (stop_old_ec2_instances cfg' w' now tr')) =
         map_sum id instances_to_stop (fst (stop_old_ec2_instances cfg w now tr))"
  using assms
  by (simp add: stop_old_ec2_instances_def Let_def scan_pages_eq split: option.split sum.split)

lemma stop_old_ec2_instances_isl_cong:
  assumes "describe_instances w' (ec2_filters cfg') = describe_instances w (ec2_filters cfg)"
  shows "(case fst (stop_old_ec2_instances cfg' w' now tr') of Inl e \<Rightarrow> Some e | Inr s \<Rightarrow> None) =
         (case fst (stop_old_ec2_instances cfg w now tr) of Inl e \<Rightarrow> Some e | Inr s \<Rightarrow> None)"
  using stop_old_ec2_instances_fst_cong [OF assms, of now tr' tr]
  by (auto split: sum.splits)

lemma ec2_filters_DRY_RUN [simp]: "ec2_filters (cfg\<lparr>DRY_RUN := b\<rparr>) = ec2_filters cfg"
  by (simp add: ec2_filters_def)

section \<open>The counters depend on the inventory only\<close>

text \<open>
  What the functions return (counters or an exception of a listing call) is the same
  in any two runs that read the same inventory, whatever the dry-run flag, the
  outcomes of the mutating calls and the events before.
\<close>

lemma process_key_fst_cong:
  assumes "get_access_key_last_used w' = get_access_key_last_used w" "counts st' = counts st"
  shows "map_sum id counts (fst (process_key cfg' w' u' now it rt k st' tr')) =
         map_sum id counts (fst (process_key cfg w u now it rt k st tr))"
  using assms by (auto simp: process_key_def Let_def counts_def split: sum.split option.split)

lemma keys_loop_fst_cong:
  assumes "get_access_key_last_used w' = get_access_key_last_used w" "counts st' = counts st"
  shows "fst (keys_loop cfg' w' u' now it rt ks st' tr') = fst (keys_loop cfg w u now it rt ks st tr)"
  using assms(2)
proof (induction ks arbitrary: st st' tr tr')
  case Nil
  then show ?case by (simp add: counts_def)
next
  case (Cons k ks)
  obtain r t where p: "process_key cfg w u now it rt k st tr = (r, t)" by force
  obtain r' t' where p': "process_key cfg' w' u' now it rt k st' tr' = (r', t')" by force
  have c: "map_sum id counts r' = map_sum id counts r"
    using process_key_fst_cong [OF assms(1) Cons.prems, of cfg' u' now it rt k tr' cfg u tr] p p' by simp
  show ?case
  proof (cases r)
    case (Inl e)
    with c have "r' = Inl e" by (cases r') simp_all
    with Inl p p' show ?thesis by simp
  next
    case (Inr s)
    with c obtain s' where s': "r' = Inr s'" "counts s' = counts s" by (cases r') simp_all
    with Inr p p' Cons.IH [OF s'(2)] show ?thesis by simp
  qed
qed

lemma process_user_keys_fst_cong:
  assumes "get_access_key_last_used w' = get_access_key_last_used w"
    and "list_access_keys w' = list_access_keys w"
  shows "fst (process_user_keys cfg' w' u now it rt tr') = fst (process_user_keys cfg w u now it rt tr)"
  using assms(2) keys_loop_fst_cong [OF assms(1)]
  by (simp add: process_user_keys_def split: sum.split)

lemma users_loop_fst_cong:
  assumes "get_access_key_last_used w' = get_access_key_last_used w"
    and "list_access_keys w' = list_access_keys w"
    and "IAM_ALLOWED_USERS cfg' = IAM_ALLOWED_USERS cfg"
  shows "fst (users_loop cfg' w' now it rt us st tr') = fst (users_loop cfg w now it rt us st tr)"
proof (induction us arbitrary: st tr tr')
  case Nil
  then show ?case by simp
next
  case (Cons u us)
  show ?case
  proof (cases "IAM_ALLOWED_USERS cfg \<noteq> {} \<and> u \<notin> IAM_ALLOWED_USERS cfg")
    case True
    then show ?thesis using assms(3) Cons.IH by simp
  next
    case False
    obtain r t where p: "process_user_keys cfg w u now it rt (print_f ''Processing user: {username}'' [S u] tr) = (r, t)"
      by force
    obtain r' t' where p': "process_user_keys cfg' w' u now it rt (print_f ''Processing user: {username}'' [S u] tr') = (r', t')"
      by force
    have "r' = r"
      using process_user_keys_fst_cong [OF assms(1,2), of cfg' u now it rt _ cfg] p p'
      by (metis fst_conv)
    then show ?thesis
      using False assms(3) p p' Cons.IH by (cases r) (auto split: prod.split)
  qed
qed

lemma pages_loop_fst_cong:
  assumes "get_access_key_last_used w' = get_access_key_last_used w"
    and "list_access_keys w' = list_access_keys w"
    and "IAM_ALLOWED_USERS cfg' = IAM_ALLOWED_USERS cfg"
  shows "fst (pages_loop cfg' w' now it rt ps st tr') = fst (pages_loop cfg w now it rt ps st tr)"
proof (induction ps arbitrary: st tr tr')
  case Nil
  then show ?case by simp
next
  case (Cons p ps)
  obtain r t where p: "users_loop cfg w now it rt p st tr = (r, t)" by force
  obtain r' t' where p': "users_loop cfg' w' now it rt p st tr' = (r', t')" by force
  have "r' = r"
    using users_loop_fst_cong [OF assms, of now it rt p st tr' tr] p p' by simp
  then show ?case
    using p p' Cons.IH by (cases r) auto
qed

lemma manage_iam_keys_fst_cong:
  assumes "get_access_key_last_used w' = get_access_key_last_used w"
    and "list_access_keys w' = list_access_keys w"
    and "IAM_ALLOWED_USERS cfg' = IAM_ALLOWED_USERS cfg"
    and "list_users w' = list_users w"
  shows "fst (manage_iam_keys cfg' w' now tr') = fst (manage_iam_keys cfg w now tr)"
proof -
  let ?st = "\<lparr>users_processed = 0, keys_deactivated = 0, keys_rotated = 0\<rparr>"
  let ?t = "print_f ''Checking IAM access keys...'' [] tr"
  let ?t' = "print_f ''Checking IAM access keys...'' [] tr'"
  obtain r t where p: "pages_loop cfg w now (timedelta_days 60) (timedelta_days 30) (fst (list_users w)) ?st ?t = (r, t)"
    by force
  obtain r' t' where p': "pages_loop cfg' w' now (timedelta_days 60) (timedelta_days 30) (fst (list_users w)) ?st ?t' = (r', t')"
    by force
  have "r' = r"
    using pages_loop_fst_cong [OF assms(1,2,3), of now "timedelta_days 60" "timedelta_days 30" "fst (list_users w)" ?st ?t' ?t] p p'
    by (simp only: fst_conv)
  then show ?thesis
    using p p' assms(4) by (cases r) (auto simp: manage_iam_keys_def Let_def split: option.split)
qed


section \<open>Dry-run\<close>

text \<open>With the dry-run flag set, no function adds a mutating call to the trace.\<close>

lemma mutations_instance_lines [simp]: "mutations (instance_lines now insts) = []"
  by (induction insts) (simp_all add: instance_lines_def)

lemma dry_process_key:
  assumes "DRY_RUN cfg"
  shows "mutations (snd (process_key cfg w u now it rt k st tr)) = mutations tr"
  using assms by (simp add: process_key_def Let_def split: sum.split option.split)

lemma dry_keys_loop:
  assumes "DRY_RUN cfg"
  shows "mutations (snd (keys_loop cfg w u now it rt ks st tr)) = mutations tr"
proof (induction ks arbitrary: st tr)
  case Nil
  then show ?case by simp
next
  case (Cons k ks)
  obtain r t where p: "process_key cfg w u now it rt k st tr = (r, t)" by force
  with dry_process_key [OF assms, of w u now it rt k st tr] have "mutations t = mutations tr" by simp
  with p Cons.IH show ?case by (cases r) simp_all
qed

lemma dry_process_user_keys:
  assumes "DRY_RUN cfg"
  shows "mutations (snd (process_user_keys cfg w u now it rt tr)) = mutations tr"
  by (simp add: process_user_keys_def dry_keys_loop [OF assms] split: sum.split)

lemma dry_users_loop:
  assumes "DRY_RUN cfg"
  shows "mutations (snd (users_loop cfg w now it rt us st tr)) = mutations tr"
proof (induction us arbitrary: st tr)
  case Nil
  then show ?case by simp
next
  case (Cons u us)
  obtain r t where p: "process_user_keys cfg w u now it rt (print_f ''Processing user: {username}'' [S u] tr) = (r, t)"
    by force
  with dry_process_user_keys [OF assms, of w u now it rt "print_f ''Processing user: {username}'' [S u] tr"]
  have "mutations t = mutations tr" by simp
  with p Cons.IH show ?case by (cases r) (simp_all split: prod.split)
qed

lemma dry_pages_loop:
  assumes "DRY_RUN cfg"
  shows "mutations (snd (pages_loop cfg w now it rt ps st tr)) = mutations tr"
proof (induction ps arbitrary: st tr)
  case Nil
  then show ?case by simp
next
  case (Cons p ps)
  obtain r t where p: "users_loop cfg w now it rt p st tr = (r, t)" by force
  with dry_users_loop [OF assms, of w now it rt p st tr] have "mutations t = mutations tr" by simp
  with p Cons.IH show ?case by (cases r) simp_all
qed

lemma dry_manage_iam_keys:
  assumes "DRY_RUN cfg"
  shows "mutations (snd (manage_iam_keys cfg w now tr)) = mutations tr"
proof -
  let ?st = "\<lparr>users_processed = 0, keys_deactivated = 0, keys_rotated = 0\<rparr>"
  let ?t = "print_f ''Checking IAM access keys...'' [] tr"
  obtain r t where p: "pages_loop cfg w now (timedelta_days 60) (timedelta_days 30) (fst (list_users w)) ?st ?t = (r, t)"
    by force
  with dry_pages_loop [OF assms, of w now "timedelta_days 60" "timedelta_days 30" "fst (list_users w)" ?st ?t]
  have "mutations t = mutations tr" by simp
  with p show ?thesis
    by (cases r) (simp_all add: manage_iam_keys_def Let_def split: option.split)
qed

lemma dry_stop_old_ec2_instances:
  assumes "DRY_RUN cfg"
  shows "mutations (snd (stop_old_ec2_instances cfg w now tr)) = mutations tr"
  using assms by (simp add: stop_old_ec2_instances_def Let_def scan_pages_eq split: option.split)

lemma mutations_send_slack_notification [simp]:
  "mutations (send_slack_notification cfg w text tr) = mutations tr"
  by (simp add: send_slack_notification_def Let_def split: http_result.split option.split)

lemma dry_lambda_handler:
  assumes "DRY_RUN cfg"
  shows "mutations (snd (lambda_handler cfg w now tr)) = mutations tr"
proof -
  let ?t = "print_f ''Lambda started at {now.isoformat()}, DRY_RUN={DRY_RUN}'' [D now, B (DRY_RUN cfg)] tr"
  obtain r t where p: "stop_old_ec2_instances cfg w now ?t = (r, t)" by force
  with dry_stop_old_ec2_instances [OF assms, of w now ?t] have t: "mutations t = mutations tr" by simp
  obtain r' t' where p': "manage_iam_keys cfg w now t = (r', t')" by force
  with dry_manage_iam_keys [OF assms, of w now t] t have "mutations t' = mutations tr" by simp
  with p p' t show ?thesis
    by (cases r; cases r') (simp_all add: lambda_handler_def Let_def)
qed

text \<open>
  Claim C2. With the dry-run flag set, a run of the entry point adds no mutating call
  (instance stop, key deactivation, key creation, secret write) to the trace, whatever
  the inventory. The counters \<open>instances_to_stop\<close>, \<open>keys_deactivated\<close> and
  \<open>keys_rotated\<close> (and \<open>users_processed\<close>) are the ones of a run on the same inventory
  with the flag cleared, for any outcomes \<open>m\<close> of the mutating calls, all of them
  succeeding among them; when a listing call raises, both runs raise the same exception.
\<close>

theorem dry_run_invariant:
  "mutations (snd (lambda_handler (cfg\<lparr>DRY_RUN := True\<rparr>) w now tr)) = mutations tr \<and>
   map_sum id instances_to_stop (fst (stop_old_ec2_instances (cfg\<lparr>DRY_RUN := True\<rparr>) w now tr)) =
     map_sum id instances_to_stop
       (fst (stop_old_ec2_instances (cfg\<lparr>DRY_RUN := False\<rparr>) (with_mutations w m) now tr')) \<and>
   fst (manage_iam_keys (cfg\<lparr>DRY_RUN := True\<rparr>) w now tr) =
     fst (manage_iam_keys (cfg\<lparr>DRY_RUN := False\<rparr>) (with_mutations w m) now tr')"
proof (intro conjI)
  show "mutations (snd (lambda_handler (cfg\<lparr>DRY_RUN := True\<rparr>) w now tr)) = mutations tr"
    by (rule dry_lambda_handler) simp
  show "map_sum id instances_to_stop (fst (stop_old_ec2_instances (cfg\<lparr>DRY_RUN := True\<rparr>) w now tr)) =
     map_sum id instances_to_stop
       (fst (stop_old_ec2_instances (cfg\<lparr>DRY_RUN := False\<rparr>) (with_mutations w m) now tr'))"
    by (rule stop_old_ec2_instances_fst_cong) simp
  show "fst (manage_iam_keys (cfg\<lparr>DRY_RUN := True\<rparr>) w now tr) =
     fst (manage_iam_keys (cfg\<lparr>DRY_RUN := False\<rparr>) (with_mutations w m) now tr')"
    by (rule manage_iam_keys_fst_cong) simp_all
qed

text \<open>
  On the sample account: the dry run issues no mutating call and reports one instance
  to stop, one key deactivated and three keys rotated, as the run that changes the
  account does.
\<close>

theorem dry_run_invariant_witness:
  "mutations (snd (lambda_handler (cfg0\<lparr>DRY_RUN := True\<rparr>) world0 now0 [])) = [] \<and>
   map_sum id instances_to_stop (fst (stop_old_ec2_instances (cfg0\<lparr>DRY_RUN := True\<rparr>) world0 now0 [])) = Inr 1 \<and>
   fst (manage_iam_keys (cfg0\<lparr>DRY_RUN := True\<rparr>) world0 now0 []) =
     Inr \<lparr>users_processed = 3, keys_deactivated = 1, keys_rotated = 3\<rparr>"
  using dry_run_invariant [of cfg0 world0 now0 "[]" world0 "[]"]
  by (simp add: world0_counters)

section \<open>Stopping instances\<close>

text \<open>
  Claim C8. When the instance inventory is listed without an exception, the list of
  instances to stop that the scan collects is the identifiers of exactly the instances
  whose running duration, \<open>now\<close> minus launch time, is more than 24 hours, in the
  order of the inventory: the loop body adds an instance launched 25 hours ago and does
  not add one launched 23 hours ago. \<open>instances_to_stop\<close> is the number of
  candidates. When there is a candidate and dry-run is off, the mutating calls of the
  function are one \<open>StopInstances\<close> call for the whole list, and
  \<open>instances_stopped\<close> is the number of candidates when the call returns and zero
  when it raises; with no candidate or in dry-run no call is issued and it is zero.
\<close>

theorem stop_candidates:
  assumes "describe_instances w (ec2_filters cfg) = (pages, None)"
  shows "fst (scan_pages now pages ([], tr0)) = map InstanceId (spec_candidates now pages) \<and>
    fst (scan_instance now \<lparr>InstanceId = x, LaunchTime = now - timedelta_hours 25\<rparr> (acc, tr0)) = acc @ [x] \<and>
    fst (scan_instance now \<lparr>InstanceId = x, LaunchTime = now - timedelta_hours 23\<rparr> (acc, tr0)) = acc \<and>
    (let ids = map InstanceId (spec_candidates now pages);
         r = stop_instances w (length tr + length (concat (concat pages)) + 2) ids
     in fst (stop_old_ec2_instances cfg w now tr) =
          Inr \<lparr>instances_to_stop = length ids,
               instances_stopped =
                 (if ids = [] \<or> DRY_RUN cfg then 0 else case r of Inr response \<Rightarrow> length ids | Inl e \<Rightarrow> 0)\<rparr> \<and>
        mutations (snd (stop_old_ec2_instances cfg w now tr)) =
          mutations tr @
          (if ids = [] \<or> DRY_RUN cfg then []
           else [StopInstances ids (case r of Inr response \<Rightarrow> None | Inl e \<Rightarrow> Some e)]))"
proof (intro conjI)
  show "fst (scan_pages now pages ([], tr0)) = map InstanceId (spec_candidates now pages)"
    by (simp add: scan_pages_eq spec_candidates_def)
  show "fst (scan_instance now \<lparr>InstanceId = x, LaunchTime = now - timedelta_hours 25\<rparr> (acc, tr0)) = acc @ [x]"
    by (simp add: scan_instance_def Let_def timedelta_hours_def)
  show "fst (scan_instance now \<lparr>InstanceId = x, LaunchTime = now - timedelta_hours 23\<rparr> (acc, tr0)) = acc"
    by (simp add: scan_instance_def Let_def timedelta_hours_def)
  show "let ids = map InstanceId (spec_candidates now pages);
         r = stop_instances w (length tr + length (concat (concat pages)) + 2) ids
     in fst (stop_old_ec2_instances cfg w now tr) =
          Inr \<lparr>instances_to_stop = length ids,
               instances_stopped =
                 (if ids = [] \<or> DRY_RUN cfg then 0 else case r of Inr response \<Rightarrow> length ids | Inl e \<Rightarrow> 0)\<rparr> \<and>
        mutations (snd (stop_old_ec2_instances cfg w now tr)) =
          mutations tr @
          (if ids = [] \<or> DRY_RUN cfg then []
           else [StopInstances ids (case r of Inr response \<Rightarrow> None | Inl e \<Rightarrow> Some e)])"
    using assms
    by (simp add: stop_old_ec2_instances_def Let_def scan_pages_eq spec_candidates_def split: sum.split)
qed

text \<open>The sample account: of the instances launched 25 and 23 hours ago the first is stopped.\<close>

theorem stop_candidates_witness:
  "describe_instances world0 (ec2_filters cfg0) =
     ([[[\<lparr>InstanceId = ''i-25h'', LaunchTime = now0 - timedelta_hours 25\<rparr>,
         \<lparr>InstanceId = ''i-23h'', LaunchTime = now0 - timedelta_hours 23\<rparr>]]], None) \<and>
   fst (stop_old_ec2_instances cfg0 world0 now0 []) = Inr \<lparr>instances_to_stop = 1, instances_stopped = 1\<rparr> \<and>
   mutations (snd (stop_old_ec2_instances cfg0 world0 now0 [])) = [StopInstances [''i-25h''] None]"
proof -
  have d: "describe_instances world0 (ec2_filters cfg0) =
     ([[[\<lparr>InstanceId = ''i-25h'', LaunchTime = now0 - timedelta_hours 25\<rparr>,
         \<lparr>InstanceId = ''i-23h'', LaunchTime = now0 - timedelta_hours 23\<rparr>]]], None)"
    by (simp add: world0_def)
  have c: "map InstanceId (spec_candidates now0
     [[[\<lparr>InstanceId = ''i-25h'', LaunchTime = now0 - timedelta_hours 25\<rparr>,
         \<lparr>InstanceId = ''i-23h'', LaunchTime = now0 - timedelta_hours 23\<rparr>]]]) = [''i-25h'']"
    by (simp add: spec_candidates_def timedelta_hours_def)
  have s: "stop_instances world0 k ids = Inr ''stopping''" "\<not> DRY_RUN cfg0" for k ids
    by (simp_all add: world0_def cfg0_def)
  show ?thesis
    using d stop_candidates [OF d, of now0 "[]" "''i''" "[]" "[]"]
    by (simp add: c s Let_def)
qed

section \<open>Publishing a secret\<close>

text \<open>
  Claim C9. The secret is published under the name made of the prefix, the user name
  and \<open>/access-key\<close>, with a payload that holds the secret value. The first mutating
  call is \<open>create_secret\<close> at that name. When it raises
  \<open>ResourceExistsException\<close> the next call is \<open>put_secret_value\<close> at the same name
  with the same payload; there is no further call, whatever the outcomes. The function
  returns no exception: when \<open>create_access_key\<close> returned a key,
  \<open>create_new_access_key\<close> returns that key whatever the secret store did, and issues
  no call that would remove it.
\<close>

theorem secret_publishing:
  "secret_name_of cfg u = SECRET_NAME_PREFIX cfg @ u @ ''/access-key'' \<and>
   p_SecretAccessKey (payload_of u ak) = ak_SecretAccessKey ak \<and>
   (let name = secret_name_of cfg u; p = payload_of u ak
    in mutations (store_access_key_in_secrets_manager cfg w u ak tr) =
       mutations tr @
       (case create_secret w (length tr + 1) name of
          None \<Rightarrow> [CreateSecret name p None]
        | Some (ResourceExistsException msg) \<Rightarrow>
            [CreateSecret name p (Some (ResourceExistsException msg)),
             PutSecretValue name p (put_secret_value w (length tr + 3) name)]
        | Some (OtherException msg) \<Rightarrow> [CreateSecret name p (Some (OtherException msg))])) \<and>
   (create_access_key w (length tr + 1) u = Inr ak \<longrightarrow>
      (\<exists>tr2. mutations tr2 = mutations tr @ [CreateAccessKey u (Inr (ak_AccessKeyId ak))] \<and>
         create_new_access_key cfg w u tr = (Some ak, store_access_key_in_secrets_manager cfg w u ak tr2)))"
proof (intro conjI impI)
  show "secret_name_of cfg u = SECRET_NAME_PREFIX cfg @ u @ ''/access-key''"
    by (simp add: secret_name_of_def)
  show "p_SecretAccessKey (payload_of u ak) = ak_SecretAccessKey ak"
    by (simp add: payload_of_def)
  show "let name = secret_name_of cfg u; p = payload_of u ak
    in mutations (store_access_key_in_secrets_manager cfg w u ak tr) =
       mutations tr @
       (case create_secret w (length tr + 1) name of
          None \<Rightarrow> [CreateSecret name p None]
        | Some (ResourceExistsException msg) \<Rightarrow>
            [CreateSecret name p (Some (ResourceExistsException msg)),
             PutSecretValue name p (put_secret_value w (length tr + 3) name)]
        | Some (OtherException msg) \<Rightarrow> [CreateSecret name p (Some (OtherException msg))])"
    by (auto simp: store_access_key_in_secrets_manager_def Let_def eval_nat_numeral split: option.split exn.split)
next
  assume a: "create_access_key w (length tr + 1) u = Inr ak"
  let ?tr2 = "print_f ''    Created new key {new_key_id} for user {username}.'' [S (ak_AccessKeyId ak), S u]
                (print_f ''    Creating new access key for user {username}...'' [S u] tr @
                 [CreateAccessKey u (Inr (ak_AccessKeyId ak))])"
  have "mutations ?tr2 = mutations tr @ [CreateAccessKey u (Inr (ak_AccessKeyId ak))]"
    by simp
  moreover have "create_new_access_key cfg w u tr = (Some ak, store_access_key_in_secrets_manager cfg w u ak ?tr2)"
    using a by (simp add: create_new_access_key_def Let_def)
  ultimately show "\<exists>tr2. mutations tr2 = mutations tr @ [CreateAccessKey u (Inr (ak_AccessKeyId ak))] \<and>
         create_new_access_key cfg w u tr = (Some ak, store_access_key_in_secrets_manager cfg w u ak tr2)"
    by blast
qed

text \<open>
  The scenario of the specification: the secret store already holds a record at the
  target name, so the publisher writes a new version.
\<close>

theorem secret_publishing_witness:
  "create_access_key (world0\<lparr>create_secret := \<lambda>k n. Some (ResourceExistsException ''exists'')\<rparr>) 1 ''alice'' =
     Inr \<lparr>ak_AccessKeyId = ''NEW'', ak_SecretAccessKey = ''hunter2'', ak_CreateDate = Some now0\<rparr> \<and>
   fst (create_new_access_key cfg0 (world0\<lparr>create_secret := \<lambda>k n. Some (ResourceExistsException ''exists'')\<rparr>)
          ''alice'' []) =
     Some \<lparr>ak_AccessKeyId = ''NEW'', ak_SecretAccessKey = ''hunter2'', ak_CreateDate = Some now0\<rparr> \<and>
   mutations (snd (create_new_access_key cfg0
                (world0\<lparr>create_secret := \<lambda>k n. Some (ResourceExistsException ''exists'')\<rparr>) ''alice'' [])) =
     [CreateAccessKey ''alice'' (Inr ''NEW''),
      CreateSecret ''iam/user/alice/access-key''
        \<lparr>p_UserName = ''alice'', p_AccessKeyId = ''NEW'', p_SecretAccessKey = ''hunter2'',
         p_CreateDate = Some now0\<rparr>
        (Some (ResourceExistsException ''exists'')),
      PutSecretValue ''iam/user/alice/access-key''
        \<lparr>p_UserName = ''alice'', p_AccessKeyId = ''NEW'', p_SecretAccessKey = ''hunter2'',
         p_CreateDate = Some now0\<rparr>
        None]"
  using secret_publishing [of cfg0 "''alice''"
      "\<lparr>ak_AccessKeyId = ''NEW'', ak_SecretAccessKey = ''hunter2'', ak_CreateDate = Some now0\<rparr>"
      "world0\<lparr>create_secret := \<lambda>k n. Some (ResourceExistsException ''exists'')\<rparr>" "[]"]
  by (simp add: run_defs cfg0_def world0_def)

section \<open>One new key for each user\<close>

lemma created_for_Nil [simp]: "created_for x [] = 0"
  by (simp add: created_for_def)

lemma created_for_append [simp]: "created_for x (a @ b) = created_for x a + created_for x b"
  by (simp add: created_for_def)

lemma created_for_Cons [simp]:
  "created_for x (e # tr) = (if is_created x e then 1 else 0) + created_for x tr"
  by (simp add: created_for_def)

lemma created_for_print_f [simp]: "created_for x (print_f fmt args tr) = created_for x tr"
  by (simp add: print_f_def)

lemma created_for_instance_lines [simp]: "created_for x (instance_lines now insts) = 0"
  by (induction insts) (simp_all add: instance_lines_def)

lemma created_for_deactivate_key [simp]: "created_for x (deactivate_key w u k tr) = created_for x tr"
  by (simp add: deactivate_key_def Let_def split: option.split)

lemma created_for_store [simp]:
  "created_for x (store_access_key_in_secrets_manager cfg w u ak tr) = created_for x tr"
  by (simp add: store_access_key_in_secrets_manager_def Let_def split: option.split exn.split)

lemma created_for_create_new_access_key:
  "created_for x (snd (create_new_access_key cfg w u tr)) =
     created_for x tr + (if x = u \<and> fst (create_new_access_key cfg w u tr) \<noteq> None then 1 else 0)"
  by (simp add: create_new_access_key_def Let_def split: sum.split)

lemma created_for_process_key:
  assumes "process_key cfg w u now it rt k st tr = (r, tr')"
  shows "(case r of
            Inl e \<Rightarrow> created_for x tr' = created_for x tr
          | Inr st' \<Rightarrow> created_for x tr' + slot st' \<le> created_for x tr + slot st) \<and>
         (x \<noteq> u \<longrightarrow> created_for x tr' = created_for x tr)"
  using assms
  by (auto simp: process_key_def Let_def slot_def created_for_create_new_access_key
        split: sum.splits option.splits if_splits)


lemma created_for_keys_loop:
  "created_for x (snd (keys_loop cfg w u now it rt ks st tr)) \<le> created_for x tr + slot st \<and>
   (x \<noteq> u \<longrightarrow> created_for x (snd (keys_loop cfg w u now it rt ks st tr)) = created_for x tr)"
proof (induction ks arbitrary: st tr)
  case Nil
  then show ?case by simp
next
  case (Cons k ks)
  obtain r t where p: "process_key cfg w u now it rt k st tr = (r, t)" by force
  note c = created_for_process_key [OF p, of x]
  show ?case
  proof (cases r)
    case (Inl e)
    with p c show ?thesis by simp
  next
    case (Inr s)
    with c have 1: "created_for x t + slot s \<le> created_for x tr + slot st"
      and 2: "x \<noteq> u \<longrightarrow> created_for x t = created_for x tr" by simp_all
    from Cons.IH [of s t]
    have 3: "created_for x (snd (keys_loop cfg w u now it rt ks s t)) \<le> created_for x t + slot s"
      and 4: "x \<noteq> u \<longrightarrow> created_for x (snd (keys_loop cfg w u now it rt ks s t)) = created_for x t"
      by simp_all
    from 1 2 3 4 p Inr show ?thesis by simp
  qed
qed

lemma created_for_process_user_keys:
  "created_for x (snd (process_user_keys cfg w u now it rt tr)) \<le>
     created_for x tr + (if x = u then 1 else 0)"
proof (cases "list_access_keys w u")
  case (Inl e)
  then show ?thesis by (simp add: process_user_keys_def)
next
  case (Inr ks)
  let ?st = "\<lparr>created_new_key = None, deactivated_count = 0, rotated_count = 0\<rparr>"
  have "slot ?st = 1" by (simp add: slot_def)
  with created_for_keys_loop [of x cfg w u now it rt ks ?st tr] Inr
  show ?thesis by (auto simp: process_user_keys_def)
qed

lemma created_for_users_loop:
  assumes "distinct us"
  shows "created_for x (snd (users_loop cfg w now it rt us st tr)) \<le>
           created_for x tr + (if x \<in> set us then 1 else 0)"
  using assms
proof (induction us arbitrary: st tr)
  case Nil
  then show ?case by simp
next
  case (Cons u us)
  from Cons.prems have d: "distinct us" and n: "u \<notin> set us" by simp_all
  note IH = Cons.IH [OF d]
  show ?case
  proof (cases "IAM_ALLOWED_USERS cfg \<noteq> {} \<and> u \<notin> IAM_ALLOWED_USERS cfg")
    case True
    with IH [of st "print_f ''Skipping user {username} (not in IAM_ALLOWED_USERS).'' [S u] tr"]
    show ?thesis by (auto split: if_splits)
  next
    case False
    let ?t = "print_f ''Processing user: {username}'' [S u] tr"
    obtain r t where p: "process_user_keys cfg w u now it rt ?t = (r, t)" by force
    with created_for_process_user_keys [of x cfg w u now it rt ?t]
    have 1: "created_for x t \<le> created_for x tr + (if x = u then 1 else 0)" by simp
    show ?thesis
    proof (cases r)
      case (Inl e)
      have "users_loop cfg w now it rt (u # us) st tr = (Inl e, t)"
        using False p Inl by auto
      with 1 show ?thesis by (auto split: if_splits)
    next
      case (Inr dr)
      obtain d r' where dr: "dr = (d, r')" by force
      let ?st = "\<lparr>users_processed = users_processed st + 1, keys_deactivated = keys_deactivated st + d,
                  keys_rotated = keys_rotated st + r'\<rparr>"
      from IH [of ?st t] 1 n
      have b: "created_for x (snd (users_loop cfg w now it rt us ?st t)) \<le>
              created_for x tr + (if x \<in> set (u # us) then 1 else 0)"
        by (auto split: if_splits)
      have "users_loop cfg w now it rt (u # us) st tr = users_loop cfg w now it rt us ?st t"
        using False p Inr dr by auto
      with b show ?thesis by (simp only:)
    qed
  qed
qed

lemma created_for_pages_loop:
  assumes "distinct (concat ps)"
  shows "created_for x (snd (pages_loop cfg w now it rt ps st tr)) \<le>
           created_for x tr + (if x \<in> set (concat ps) then 1 else 0)"
  using assms
proof (induction ps arbitrary: st tr)
  case Nil
  then show ?case by simp
next
  case (Cons p ps)
  from Cons.prems have dp: "distinct p" and d: "distinct (concat ps)"
    and n: "set p \<inter> set (concat ps) = {}" by auto
  obtain r t where u: "users_loop cfg w now it rt p st tr = (r, t)" by force
  with created_for_users_loop [OF dp, of x cfg w now it rt st tr]
  have 1: "created_for x t \<le> created_for x tr + (if x \<in> set p then 1 else 0)" by simp
  show ?case
  proof (cases r)
    case (Inl e)
    with u 1 show ?thesis by (auto split: if_splits)
  next
    case (Inr s)
    from Cons.IH [OF d, of s t] 1 n
    have "created_for x (snd (pages_loop cfg w now it rt ps s t)) \<le>
            created_for x tr + (if x \<in> set (concat (p # ps)) then 1 else 0)"
      by (auto split: if_splits)
    with u Inr show ?thesis by simp
  qed
qed

lemma created_for_manage_iam_keys:
  assumes "distinct (concat (fst (list_users w)))"
  shows "created_for x (snd (manage_iam_keys cfg w now tr)) \<le> created_for x tr + 1"
proof -
  let ?st = "\<lparr>users_processed = 0, keys_deactivated = 0, keys_rotated = 0\<rparr>"
  let ?t = "print_f ''Checking IAM access keys...'' [] tr"
  obtain r t where p: "pages_loop cfg w now (timedelta_days 60) (timedelta_days 30) (fst (list_users w)) ?st ?t = (r, t)"
    by force
  with created_for_pages_loop [OF assms, of x cfg w now "timedelta_days 60" "timedelta_days 30" ?st ?t]
  have "created_for x t \<le> created_for x tr + 1" by (simp split: if_splits)
  with p show ?thesis
    by (cases r) (simp_all add: manage_iam_keys_def Let_def split: option.split)
qed

lemma created_for_stop_old_ec2_instances [simp]:
  "created_for x (snd (stop_old_ec2_instances cfg w now tr)) = created_for x tr"
  by (simp add: stop_old_ec2_instances_def Let_def scan_pages_eq split: option.split sum.split)

lemma created_for_send_slack_notification [simp]:
  "created_for x (send_slack_notification cfg w text tr) = created_for x tr"
  by (simp add: send_slack_notification_def Let_def split: http_result.split option.split)

text \<open>
  Claim C3. When the user names of the inventory are pairwise different, a run adds at
  most one successful \<open>create_access_key\<close> call for any user to the trace, however
  many keys of the user are to be rotated and whichever calls fail.
\<close>

theorem one_new_key_per_user:
  assumes "distinct (concat (fst (list_users w)))"
  shows "created_for u (snd (lambda_handler cfg w now tr)) \<le> created_for u tr + 1"
proof -
  let ?t = "print_f ''Lambda started at {now.isoformat()}, DRY_RUN={DRY_RUN}'' [D now, B (DRY_RUN cfg)] tr"
  obtain r t where p: "stop_old_ec2_instances cfg w now ?t = (r, t)" by force
  then have t: "created_for u t = created_for u tr"
    using created_for_stop_old_ec2_instances [of u cfg w now ?t] by simp
  obtain r' t' where p': "manage_iam_keys cfg w now t = (r', t')" by force
  with created_for_manage_iam_keys [OF assms, of u cfg now t] t
  have "created_for u t' \<le> created_for u tr + 1" by simp
  with p p' t show ?thesis
    by (cases r; cases r') (simp_all add: lambda_handler_def Let_def)
qed

text \<open>
  While key creation is throttled, both of Carol's keys are to be rotated: the first
  creation fails, the second succeeds and is the only credential created for her.
\<close>

lemma observed_on_mutations:
  "filter (is_create_call u) tr = filter (is_create_call u) (mutations tr)"
  "created_for u tr = created_for u (mutations tr)"
  by (induction tr) (auto simp: created_for_def mutations_def elim: is_create_call.elims is_created.elims)

lemma world_throttled_mutations:
  "mutations (snd (lambda_handler cfg0 world_throttled now0 [])) =
     [StopInstances [''i-25h''] None,
      UpdateAccessKey ''alice'' ''A1'' ''Inactive'' None,
      CreateAccessKey ''alice'' (Inl (OtherException ''Throttling'')),
      UpdateAccessKey ''alice'' ''A2'' ''Inactive'' None,
      CreateAccessKey ''carol'' (Inl (OtherException ''Throttling'')),
      UpdateAccessKey ''carol'' ''C1'' ''Inactive'' None,
      CreateAccessKey ''carol'' (Inr ''NEW''),
      CreateSecret ''iam/user/carol/access-key''
        \<lparr>p_UserName = ''carol'', p_AccessKeyId = ''NEW'', p_SecretAccessKey = ''hunter2'',
         p_CreateDate = Some now0\<rparr>
        None,
      UpdateAccessKey ''carol'' ''C2'' ''Inactive'' None]"
  by (simp add: run_defs cfg0_def world_throttled_def world0_def now0_def)

theorem one_new_key_per_user_witness:
  "distinct (concat (fst (list_users world_throttled))) \<and>
   length (filter (is_create_call ''carol'') (snd (lambda_handler cfg0 world_throttled now0 []))) = 2 \<and>
   created_for ''carol'' (snd (lambda_handler cfg0 world_throttled now0 [])) = 1"
proof -
  let ?tr = "snd (lambda_handler cfg0 world_throttled now0 [])"
  have d: "distinct (concat (fst (list_users world_throttled)))"
    by (simp add: world_throttled_def world0_def)
  have "length (filter (is_create_call ''carol'') ?tr) =
        length (filter (is_create_call ''carol'') (mutations ?tr))"
    by (rule arg_cong [OF observed_on_mutations(1)])
  then have 1: "length (filter (is_create_call ''carol'') ?tr) = 2"
    by (simp add: world_throttled_mutations)
  have "created_for ''carol'' ?tr = created_for ''carol'' (mutations ?tr)"
    by (rule observed_on_mutations(2))
  then have 2: "created_for ''carol'' ?tr = 1"
    by (simp add: world_throttled_mutations)
  from d 1 2 one_new_key_per_user [OF d, of "''carol''" cfg0 now0 "[]"] show ?thesis
    by simp
qed

section \<open>What the entry point returns\<close>

lemma isl_process_key:
  "isl (fst (process_key cfg w u now it rt k st tr)) = isl (get_access_key_last_used w (AccessKeyId k))"
  by (simp add: process_key_def Let_def split: sum.split)

lemma isl_keys_loop:
  "isl (fst (keys_loop cfg w u now it rt ks st tr)) =
     (\<not> list_all (\<lambda>k. \<not> isl (get_access_key_last_used w (AccessKeyId k))) ks)"
proof (induction ks arbitrary: st tr)
  case Nil
  then show ?case by simp
next
  case (Cons k ks)
  obtain r t where p: "process_key cfg w u now it rt k st tr = (r, t)" by force
  with isl_process_key [of cfg w u now it rt k st tr]
  have "isl r = isl (get_access_key_last_used w (AccessKeyId k))" by simp
  with p Cons.IH show ?case by (cases r) simp_all
qed

lemma isl_process_user_keys:
  "isl (fst (process_user_keys cfg w u now it rt tr)) = (\<not> keys_listing_ok w u)"
  by (simp add: process_user_keys_def keys_listing_ok_def isl_keys_loop split: sum.split)

lemma isl_users_loop:
  "isl (fst (users_loop cfg w now it rt us st tr)) =
     (\<not> list_all (\<lambda>u. skipped cfg u \<or> keys_listing_ok w u) us)"
proof (induction us arbitrary: st tr)
  case Nil
  then show ?case by simp
next
  case (Cons u us)
  show ?case
  proof (cases "skipped cfg u")
    case True
    then have "users_loop cfg w now it rt (u # us) st tr =
       users_loop cfg w now it rt us st (print_f ''Skipping user {username} (not in IAM_ALLOWED_USERS).'' [S u] tr)"
      by (simp add: skipped_def)
    with True Cons.IH show ?thesis by simp
  next
    case False
    let ?t = "print_f ''Processing user: {username}'' [S u] tr"
    obtain r t where p: "process_user_keys cfg w u now it rt ?t = (r, t)" by force
    with isl_process_user_keys [of cfg w u now it rt ?t]
    have i: "isl r = (\<not> keys_listing_ok w u)" by simp
    show ?thesis
    proof (cases r)
      case (Inl e)
      then have "users_loop cfg w now it rt (u # us) st tr = (Inl e, t)"
        using False p by (auto simp: skipped_def)
      with i Inl False show ?thesis by simp
    next
      case (Inr dr)
      obtain d r' where dr: "dr = (d, r')" by force
      let ?st = "\<lparr>users_processed = users_processed st + 1, keys_deactivated = keys_deactivated st + d,
                  keys_rotated = keys_rotated st + r'\<rparr>"
      have "users_loop cfg w now it rt (u # us) st tr = users_loop cfg w now it rt us ?st t"
        using False p Inr dr by (auto simp: skipped_def)
      with i Inr False Cons.IH [of ?st t] show ?thesis by simp
    qed
  qed
qed

lemma isl_pages_loop:
  "isl (fst (pages_loop cfg w now it rt ps st tr)) =
     (\<not> list_all (\<lambda>u. skipped cfg u \<or> keys_listing_ok w u) (concat ps))"
proof (induction ps arbitrary: st tr)
  case Nil
  then show ?case by simp
next
  case (Cons p ps)
  obtain r t where u: "users_loop cfg w now it rt p st tr = (r, t)" by force
  with isl_users_loop [of cfg w now it rt p st tr]
  have "isl r = (\<not> list_all (\<lambda>u. skipped cfg u \<or> keys_listing_ok w u) p)" by simp
  with u Cons.IH show ?case by (cases r) simp_all
qed

lemma isl_manage_iam_keys:
  "isl (fst (manage_iam_keys cfg w now tr)) =
     (\<not> (list_all (\<lambda>u. skipped cfg u \<or> keys_listing_ok w u) (concat (fst (list_users w))) \<and>
         snd (list_users w) = None))"
proof -
  let ?st = "\<lparr>users_processed = 0, keys_deactivated = 0, keys_rotated = 0\<rparr>"
  let ?t = "print_f ''Checking IAM access keys...'' [] tr"
  obtain r t where p: "pages_loop cfg w now (timedelta_days 60) (timedelta_days 30) (fst (list_users w)) ?st ?t = (r, t)"
    by force
  with isl_pages_loop [of cfg w now "timedelta_days 60" "timedelta_days 30" "fst (list_users w)" ?st ?t]
  have "isl r = (\<not> list_all (\<lambda>u. skipped cfg u \<or> keys_listing_ok w u) (concat (fst (list_users w))))"
    by simp
  with p show ?thesis
    by (cases r) (auto simp: manage_iam_keys_def Let_def split: option.split)
qed

lemma isl_stop_old_ec2_instances:
  "isl (fst (stop_old_ec2_instances cfg w now tr)) = (snd (describe_instances w (ec2_filters cfg)) \<noteq> None)"
  by (simp add: stop_old_ec2_instances_def Let_def split: option.split sum.split)

lemma lambda_handler_result:
  "fst (lambda_handler cfg w now tr) = Inr res \<Longrightarrow> res = \<lparr>status = ''ok''\<rparr>"
  by (auto simp: lambda_handler_def Let_def split: prod.splits sum.splits)

lemma isl_lambda_handler:
  "isl (fst (lambda_handler cfg w now tr)) = (\<not> listing_ok cfg w)"
proof -
  let ?t = "print_f ''Lambda started at {now.isoformat()}, DRY_RUN={DRY_RUN}'' [D now, B (DRY_RUN cfg)] tr"
  obtain r t where p: "stop_old_ec2_instances cfg w now ?t = (r, t)" by force
  with isl_stop_old_ec2_instances [of cfg w now ?t]
  have 1: "isl r = (snd (describe_instances w (ec2_filters cfg)) \<noteq> None)" by simp
  obtain r' t' where p': "manage_iam_keys cfg w now t = (r', t')" by force
  with isl_manage_iam_keys [of cfg w now t]
  have 2: "isl r' = (\<not> (list_all (\<lambda>u. skipped cfg u \<or> keys_listing_ok w u) (concat (fst (list_users w))) \<and>
         snd (list_users w) = None))" by simp
  from p p' 1 2 show ?thesis
    by (cases r; cases r') (auto simp: lambda_handler_def Let_def listing_ok_def)
qed

text \<open>
  Claim C4, as the code has it. The entry point returns the status object
  \<open>{"status": "ok"}\<close>, whatever the outcomes of the mutating calls and of the webhook
  request, exactly when no listing call of the run raises (describe instances, list
  users, list access keys of a processed user, last-used date of one of their keys).
  When one raises, the exception leaves the entry point.
\<close>

theorem handler_returns_ok:
  "(fst (lambda_handler cfg w now tr) = Inr \<lparr>status = ''ok''\<rparr>) = listing_ok cfg w \<and>
   (\<exists>e. fst (lambda_handler cfg w now tr) = Inl e) = (\<not> listing_ok cfg w)"
proof -
  have "fst (lambda_handler cfg w now tr) = Inr \<lparr>status = ''ok''\<rparr> \<or> (\<exists>e. fst (lambda_handler cfg w now tr) = Inl e)"
    using lambda_handler_result [of cfg w now tr] by (cases "fst (lambda_handler cfg w now tr)") auto
  then show ?thesis
    using isl_lambda_handler [of cfg w now tr] by (auto simp: isl_def)
qed

text \<open>
  On the sample account the run returns the status object; when listing the users is
  denied it ends with an exception.
\<close>

theorem handler_returns_ok_witness:
  "listing_ok cfg0 world0 \<and> fst (lambda_handler cfg0 world0 now0 []) = Inr \<lparr>status = ''ok''\<rparr> \<and>
   \<not> listing_ok cfg0 world_denied \<and> (\<exists>e. fst (lambda_handler cfg0 world_denied now0 []) = Inl e)"
proof -
  have 1: "listing_ok cfg0 world0"
    by (simp add: listing_ok_def keys_listing_ok_def skipped_def cfg0_def world0_def)
  have 2: "\<not> listing_ok cfg0 world_denied"
    by (simp add: listing_ok_def world_denied_def)
  from 1 2 handler_returns_ok [of cfg0 world0 now0 "[]"] handler_returns_ok [of cfg0 world_denied now0 "[]"]
  show ?thesis by simp
qed

text \<open>
  Claim C4 as stated fails: when \<open>list_users\<close> raises, the entry point does not
  return the status object but raises that exception.
\<close>

theorem handler_raises_counterexample:
  "fst (lambda_handler cfg0 world_denied now0 []) = Inl (OtherException ''AccessDenied'')"
  by (simp add: run_defs cfg0_def world_denied_def world0_def now0_def)

section \<open>Failures of mutating calls\<close>




section \<open>Rotation and the old key\<close>

lemma mutations_create_new_access_key:
  "\<exists>ss. mutations (snd (create_new_access_key cfg w u tr)) =
          mutations tr @
          (case create_access_key w (Suc (length tr)) u of
             Inl e \<Rightarrow> [CreateAccessKey u (Inl e)]
           | Inr ak \<Rightarrow> CreateAccessKey u (Inr (ak_AccessKeyId ak)) # ss) \<and>
        fst (create_new_access_key cfg w u tr) =
          (case create_access_key w (Suc (length tr)) u of Inl e \<Rightarrow> None | Inr ak \<Rightarrow> Some ak)"
proof (cases "create_access_key w (Suc (length tr)) u")
  case (Inl e)
  then show ?thesis by (simp add: create_new_access_key_def Let_def)
next
  case (Inr ak)
  let ?tr2 = "print_f ''    Created new key {new_key_id} for user {username}.'' [S (ak_AccessKeyId ak), S u]
                (print_f ''    Creating new access key for user {username}...'' [S u] tr @
                 [CreateAccessKey u (Inr (ak_AccessKeyId ak))])"
  have "\<exists>ss. mutations (store_access_key_in_secrets_manager cfg w u ak ?tr2) = mutations ?tr2 @ ss"
    by (simp add: store_access_key_in_secrets_manager_def Let_def split: option.split exn.split)
  then obtain ss where "mutations (store_access_key_in_secrets_manager cfg w u ak ?tr2) = mutations ?tr2 @ ss"
    by blast
  with Inr show ?thesis by (simp add: create_new_access_key_def Let_def)
qed

lemma process_key_rotate:
  assumes "get_access_key_last_used w (AccessKeyId k) = Inr lu"
    and "spec_decision now k lu = Rotate"
  shows "\<exists>t3. Suc (length t3) = length tr + 4 \<and> mutations t3 = mutations tr \<and>
     process_key cfg w u now (timedelta_days 60) (timedelta_days 30) k st tr =
       (let made =
          (if created_new_key st = None then
             (if \<not> DRY_RUN cfg then
                (map_option NewKey (fst (create_new_access_key cfg w u t3)),
                 snd (create_new_access_key cfg w u t3))
              else
                (Some DRY_RUN_PLACEHOLDER,
                 print_f ''    DRY_RUN: would create a new access key for this user.'' [] t3))
           else (created_new_key st, t3))
        in (Inr (st\<lparr>created_new_key := fst made, rotated_count := rotated_count st + 1\<rparr>),
            if \<not> DRY_RUN cfg then deactivate_key w u (AccessKeyId k) (snd made)
            else print_f ''    DRY_RUN: would deactivate old key {access_key_id} after rotation.''
                   [S (AccessKeyId k)] (snd made)))"
proof -
  let ?t1 = "print_f ''  Key {access_key_id}: status={status}, create_date={create_date}, age={key_age}''
                  [S (AccessKeyId k), S (Status k), D (CreateDate k), TD (now - CreateDate k)] tr"
  from assms(2) have a: "\<not> spec_inactivity_age now k lu > timedelta_days 60"
    and b: "Status k = ''Active''" "now - CreateDate k > timedelta_days 30"
    by (simp_all add: spec_decision_def split: if_splits)
  show ?thesis
  proof (cases lu)
    case None
    let ?t3 = "print_f ''    Key {access_key_id} is active and older than 30 days -> rotation needed''
               [S (AccessKeyId k)]
               (print_f ''    Never used, treating inactivity_age={inactivity_age}'' [TD (now - CreateDate k)] ?t1)"
    from a None have "\<not> now - CreateDate k > timedelta_days 60"
      by (simp add: spec_inactivity_age_def)
    with assms(1) None b show ?thesis
      by (intro exI [of _ ?t3]) (simp add: process_key_def Let_def)
  next
    case (Some t)
    let ?t3 = "print_f ''    Key {access_key_id} is active and older than 30 days -> rotation needed''
               [S (AccessKeyId k)]
               (print_f ''    Last used at {last_used}, inactivity_age={inactivity_age}'' [D t, TD (now - t)] ?t1)"
    from a Some have "\<not> now - t > timedelta_days 60"
      by (simp add: spec_inactivity_age_def)
    with assms(1) Some b show ?thesis
      by (intro exI [of _ ?t3]) (simp add: process_key_def Let_def)
  qed
qed

text \<open>
  Claim C6, as the code has it. For a key that is to be rotated, the rotated counter
  goes up by one whatever becomes of the key creation. With dry-run off, the last
  mutating call of the pass is the deactivation of the old key, also when the creation
  just before it failed (\<open>created_new_key\<close> stays \<open>None\<close>) and when a key had been
  created earlier in the loop. In dry-run the creation is the placeholder and the old
  key is not deactivated: the pass issues no mutating call and its last line says what
  it would deactivate.
\<close>

theorem rotation_deactivates_old_key:
  assumes "get_access_key_last_used w (AccessKeyId k) = Inr lu"
    and "spec_decision now k lu = Rotate"
  shows "\<exists>st' tr'.
     process_key cfg w u now (timedelta_days 60) (timedelta_days 30) k st tr = (Inr st', tr') \<and>
     rotated_count st' = rotated_count st + 1 \<and>
     deactivated_count st' = deactivated_count st \<and>
     (if DRY_RUN cfg then
        mutations tr' = mutations tr \<and>
        created_new_key st' =
          (if created_new_key st = None then Some DRY_RUN_PLACEHOLDER else created_new_key st) \<and>
        last tr' = Print ''    DRY_RUN: would deactivate old key {access_key_id} after rotation.''
                     [S (AccessKeyId k)]
      else
        (\<exists>es r. mutations tr' = mutations tr @ es @ [UpdateAccessKey u (AccessKeyId k) ''Inactive'' r] \<and>
           (case created_new_key st of
              Some c \<Rightarrow> es = [] \<and> created_new_key st' = Some c
            | None \<Rightarrow>
                (case create_access_key w (length tr + 4) u of
                   Inl e \<Rightarrow> es = [CreateAccessKey u (Inl e)] \<and> created_new_key st' = None
                 | Inr ak \<Rightarrow>
                     (\<exists>ss. es = CreateAccessKey u (Inr (ak_AccessKeyId ak)) # ss) \<and>
                     created_new_key st' = Some (NewKey ak)))))"
proof -
  from process_key_rotate [OF assms, where cfg=cfg and u=u and st=st and tr=tr]
  obtain t3 where l3: "Suc (length t3) = length tr + 4" and m3: "mutations t3 = mutations tr"
    and p: "process_key cfg w u now (timedelta_days 60) (timedelta_days 30) k st tr =
       (let made =
          (if created_new_key st = None then
             (if \<not> DRY_RUN cfg then
                (map_option NewKey (fst (create_new_access_key cfg w u t3)),
                 snd (create_new_access_key cfg w u t3))
              else
                (Some DRY_RUN_PLACEHOLDER,
                 print_f ''    DRY_RUN: would create a new access key for this user.'' [] t3))
           else (created_new_key st, t3))
        in (Inr (st\<lparr>created_new_key := fst made, rotated_count := rotated_count st + 1\<rparr>),
            if \<not> DRY_RUN cfg then deactivate_key w u (AccessKeyId k) (snd made)
            else print_f ''    DRY_RUN: would deactivate old key {access_key_id} after rotation.''
                   [S (AccessKeyId k)] (snd made)))"
    by blast
  show ?thesis
  proof (cases "DRY_RUN cfg")
    case True
    with m3 show ?thesis
      unfolding p by (auto simp: Let_def print_f_def)
  next
    case False
    show ?thesis
    proof (cases "created_new_key st")
      case (Some c)
      with False m3 show ?thesis
        unfolding p by (auto simp: Let_def mutations_deactivate_key)
    next
      case None
      let ?c = "create_new_access_key cfg w u t3"
      from mutations_create_new_access_key [of cfg w u t3]
      obtain ss where "mutations (snd ?c) = mutations t3 @
          (case create_access_key w (Suc (length t3)) u of
             Inl e \<Rightarrow> [CreateAccessKey u (Inl e)]
           | Inr ak \<Rightarrow> CreateAccessKey u (Inr (ak_AccessKeyId ak)) # ss)"
        and "fst ?c =
          (case create_access_key w (Suc (length t3)) u of Inl e \<Rightarrow> None | Inr ak \<Rightarrow> Some ak)"
        by blast
      then have m4: "mutations (snd ?c) = mutations tr @
          (case create_access_key w (length tr + 4) u of
             Inl e \<Rightarrow> [CreateAccessKey u (Inl e)]
           | Inr ak \<Rightarrow> CreateAccessKey u (Inr (ak_AccessKeyId ak)) # ss)"
        and r4: "fst ?c = (case create_access_key w (length tr + 4) u of Inl e \<Rightarrow> None | Inr ak \<Rightarrow> Some ak)"
        by (simp_all only: l3 m3)
      from False None m4 r4 show ?thesis
        unfolding p by (auto simp: Let_def mutations_deactivate_key split: sum.split)
    qed
  qed
qed

text \<open>
  While key creation is throttled, Alice's key of 40 days is counted as rotated and
  deactivated although no new key was created.
\<close>

theorem rotation_deactivates_old_key_witness:
  "get_access_key_last_used world_throttled ''A2'' = Inr (Some (now0 - timedelta_days 5)) \<and>
   spec_decision now0 \<lparr>AccessKeyId = ''A2'', Status = ''Active'', CreateDate = now0 - timedelta_days 40\<rparr>
     (Some (now0 - timedelta_days 5)) = Rotate \<and>
   create_access_key world_throttled 4 ''alice'' = Inl (OtherException ''Throttling'') \<and>
   (\<exists>st' tr'.
      process_key cfg0 world_throttled ''alice'' now0 (timedelta_days 60) (timedelta_days 30)
        \<lparr>AccessKeyId = ''A2'', Status = ''Active'', CreateDate = now0 - timedelta_days 40\<rparr>
        \<lparr>created_new_key = None, deactivated_count = 0, rotated_count = 0\<rparr> [] = (Inr st', tr') \<and>
      rotated_count st' = 1 \<and> created_new_key st' = None \<and>
      (\<exists>r. mutations tr' =
         [CreateAccessKey ''alice'' (Inl (OtherException ''Throttling'')),
          UpdateAccessKey ''alice'' ''A2'' ''Inactive'' r]))"
proof -
  let ?k = "\<lparr>AccessKeyId = ''A2'', Status = ''Active'', CreateDate = now0 - timedelta_days 40\<rparr>"
  have r: "get_access_key_last_used world_throttled (AccessKeyId ?k) = Inr (Some (now0 - timedelta_days 5))"
    by (simp add: world_throttled_def world0_def)
  have d: "spec_decision now0 ?k (Some (now0 - timedelta_days 5)) = Rotate"
    by (simp add: spec_decision_def spec_inactivity_age_def timedelta_days_def now0_def)
  have c: "create_access_key world_throttled 4 ''alice'' = Inl (OtherException ''Throttling'')"
    "\<not> DRY_RUN cfg0"
    by (simp_all add: world_throttled_def cfg0_def)
  from rotation_deactivates_old_key [OF r d, of cfg0 "''alice''"
      "\<lparr>created_new_key = None, deactivated_count = 0, rotated_count = 0\<rparr>" "[]"] r d c
  show ?thesis by auto
qed

text \<open>
  Claim C6 as stated fails for the dry-run placeholder: in dry-run the pass over
  Alice's key of 40 days counts a rotation and issues no call at all, so the old key
  is not deactivated.
\<close>

theorem rotation_in_dry_run_counterexample:
  "fst (process_key (cfg0\<lparr>DRY_RUN := True\<rparr>) world0 ''alice'' now0 (timedelta_days 60) (timedelta_days 30)
         \<lparr>AccessKeyId = ''A2'', Status = ''Active'', CreateDate = now0 - timedelta_days 40\<rparr>
         \<lparr>created_new_key = None, deactivated_count = 0, rotated_count = 0\<rparr> []) =
     Inr \<lparr>created_new_key = Some DRY_RUN_PLACEHOLDER, deactivated_count = 0, rotated_count = 1\<rparr> \<and>
   mutations (snd (process_key (cfg0\<lparr>DRY_RUN := True\<rparr>) world0 ''alice'' now0 (timedelta_days 60) (timedelta_days 30)
         \<lparr>AccessKeyId = ''A2'', Status = ''Active'', CreateDate = now0 - timedelta_days 40\<rparr>
         \<lparr>created_new_key = None, deactivated_count = 0, rotated_count = 0\<rparr> [])) = []"
  by (simp add: run_defs cfg0_def world0_def now0_def)

section \<open>The secret value stays out of the output\<close>

lemma resecret_simps [simp]:
  "describe_instances (resecret g w) = describe_instances w"
  "stop_instances (resecret g w) = stop_instances w"
  "list_users (resecret g w) = list_users w"
  "list_access_keys (resecret g w) = list_access_keys w"
  "get_access_key_last_used (resecret g w) = get_access_key_last_used w"
  "update_access_key (resecret g w) = update_access_key w"
  "create_secret (resecret g w) = create_secret w"
  "put_secret_value (resecret g w) = put_secret_value w"
  "urlopen (resecret g w) = urlopen w"
  "create_access_key (resecret g w) k u =
     map_sum id (\<lambda>ak. ak\<lparr>ak_SecretAccessKey := g k u\<rparr>) (create_access_key w k u)"
  by (simp_all add: resecret_def)

lemma resecret_resecret [simp]: "resecret g (resecret h w) = resecret g w"
  by (simp add: resecret_def fun_eq_iff sum.map_comp comp_def id_def)

lemma outputs_hide: "outputs (map hide tr) = outputs tr"
proof (induction tr)
  case Nil
  then show ?case by (simp add: outputs_def)
next
  case (Cons e tr)
  then show ?case by (cases e) (simp_all add: outputs_def)
qed

text \<open>
  Running in the world whose secrets are blank, on a trace with blanked payloads, gives
  the blanked trace of the run.
\<close>

lemma hide_print_f: "print_f fmt args (map hide tr) = map hide (print_f fmt args tr)"
  by (simp add: print_f_def)

lemma hide_instance_lines: "instance_lines now insts = map hide (instance_lines now insts)"
  by (simp add: instance_lines_def)

lemma hide_deactivate_key:
  "deactivate_key (resecret (\<lambda>k u. []) w) u k (map hide tr) = map hide (deactivate_key w u k tr)"
  by (simp add: deactivate_key_def Let_def print_f_def split: option.split)

lemma hide_store:
  "store_access_key_in_secrets_manager cfg (resecret (\<lambda>k u. []) w) u (blank_key ak) (map hide tr) =
     map hide (store_access_key_in_secrets_manager cfg w u ak tr)"
  by (simp add: store_access_key_in_secrets_manager_def Let_def payload_of_def blank_key_def print_f_def
        split: option.split exn.split)

lemma hide_create_new_access_key:
  "create_new_access_key cfg (resecret (\<lambda>k u. []) w) u (map hide tr) =
     map_prod (map_option blank_key) (map hide) (create_new_access_key cfg w u tr)"
proof (cases "create_access_key w (Suc (length tr)) u")
  case (Inl e)
  then show ?thesis by (simp add: create_new_access_key_def Let_def print_f_def)
next
  case (Inr ak)
  let ?t = "print_f ''    Created new key {new_key_id} for user {username}.'' [S (ak_AccessKeyId ak), S u]
              (print_f ''    Creating new access key for user {username}...'' [S u] tr @
               [CreateAccessKey u (Inr (ak_AccessKeyId ak))])"
  have "print_f ''    Created new key {new_key_id} for user {username}.'' [S (ak_AccessKeyId ak), S u]
              (print_f ''    Creating new access key for user {username}...'' [S u] (map hide tr) @
               [CreateAccessKey u (Inr (ak_AccessKeyId ak))]) = map hide ?t"
    by (simp add: print_f_def)
  with Inr hide_store [of cfg w u ak ?t] show ?thesis
    by (simp add: create_new_access_key_def Let_def blank_key_def)
qed

lemma blank_state_simps [simp]:
  "deactivated_count (blank_state st) = deactivated_count st"
  "rotated_count (blank_state st) = rotated_count st"
  "(created_new_key (blank_state st) = None) = (created_new_key st = None)"
  by (simp_all add: blank_state_def)

lemma hide_process_key:
  "process_key cfg (resecret (\<lambda>k u. []) w) u now it rt k (blank_state st) (map hide tr) =
     map_prod (map_sum id blank_state) (map hide) (process_key cfg w u now it rt k st tr)"
proof (cases "get_access_key_last_used w (AccessKeyId k)")
  case (Inl e)
  then show ?thesis by (simp add: process_key_def Let_def hide_print_f)
next
  case (Inr lu)
  then show ?thesis
    by (cases lu)
       (simp_all add: process_key_def Let_def hide_print_f hide_deactivate_key
          hide_create_new_access_key blank_state_def option.map_comp comp_def)
qed


lemma hide_keys_loop:
  "keys_loop cfg (resecret (\<lambda>k u. []) w) u now it rt ks (blank_state st) (map hide tr) =
     map_prod id (map hide) (keys_loop cfg w u now it rt ks st tr)"
proof (induction ks arbitrary: st tr)
  case Nil
  then show ?case by simp
next
  case (Cons k ks)
  obtain r t where p: "process_key cfg w u now it rt k st tr = (r, t)" by force
  with hide_process_key [of cfg w u now it rt k st tr]
  have "process_key cfg (resecret (\<lambda>k u. []) w) u now it rt k (blank_state st) (map hide tr) =
          (map_sum id blank_state r, map hide t)" by simp
  with p Cons.IH show ?case by (cases r) simp_all
qed

lemma hide_process_user_keys:
  "process_user_keys cfg (resecret (\<lambda>k u. []) w) u now it rt (map hide tr) =
     map_prod id (map hide) (process_user_keys cfg w u now it rt tr)"
proof -
  let ?st = "\<lparr>created_new_key = None, deactivated_count = 0, rotated_count = 0\<rparr>"
  have "blank_state ?st = ?st" by (simp add: blank_state_def)
  with hide_keys_loop [of cfg w u now it rt _ ?st tr] show ?thesis
    by (simp add: process_user_keys_def hide_print_f split: sum.split)
qed

lemma hide_users_loop:
  "users_loop cfg (resecret (\<lambda>k u. []) w) now it rt us st (map hide tr) =
     map_prod id (map hide) (users_loop cfg w now it rt us st tr)"
proof (induction us arbitrary: st tr)
  case Nil
  then show ?case by simp
next
  case (Cons u us)
  let ?t = "print_f ''Processing user: {username}'' [S u] tr"
  obtain r t where p: "process_user_keys cfg w u now it rt ?t = (r, t)" by force
  with hide_process_user_keys [of cfg w u now it rt ?t]
  have "process_user_keys cfg (resecret (\<lambda>k u. []) w) u now it rt (map hide ?t) = (r, map hide t)"
    by simp
  with p Cons.IH show ?case
    by (cases r) (simp_all add: hide_print_f split: prod.split)
qed

lemma hide_pages_loop:
  "pages_loop cfg (resecret (\<lambda>k u. []) w) now it rt ps st (map hide tr) =
     map_prod id (map hide) (pages_loop cfg w now it rt ps st tr)"
proof (induction ps arbitrary: st tr)
  case Nil
  then show ?case by simp
next
  case (Cons p ps)
  obtain r t where u: "users_loop cfg w now it rt p st tr = (r, t)" by force
  with hide_users_loop [of cfg w now it rt p st tr]
  have "users_loop cfg (resecret (\<lambda>k u. []) w) now it rt p st (map hide tr) = (r, map hide t)"
    by simp
  with u Cons.IH show ?case by (cases r) simp_all
qed

lemma hide_manage_iam_keys:
  "manage_iam_keys cfg (resecret (\<lambda>k u. []) w) now (map hide tr) =
     map_prod id (map hide) (manage_iam_keys cfg w now tr)"
proof -
  let ?st = "\<lparr>users_processed = 0, keys_deactivated = 0, keys_rotated = 0\<rparr>"
  let ?t = "print_f ''Checking IAM access keys...'' [] tr"
  obtain r t where p: "pages_loop cfg w now (timedelta_days 60) (timedelta_days 30) (fst (list_users w)) ?st ?t = (r, t)"
    by force
  with hide_pages_loop [of cfg w now "timedelta_days 60" "timedelta_days 30" "fst (list_users w)" ?st ?t]
  have "pages_loop cfg (resecret (\<lambda>k u. []) w) now (timedelta_days 60) (timedelta_days 30) (fst (list_users w))
          ?st (map hide ?t) = (r, map hide t)"
    by simp
  with p show ?thesis
    by (cases r) (simp_all add: manage_iam_keys_def Let_def hide_print_f split: option.split)
qed

lemma hide_stop_old_ec2_instances:
  "stop_old_ec2_instances cfg (resecret (\<lambda>k u. []) w) now (map hide tr) =
     map_prod id (map hide) (stop_old_ec2_instances cfg w now tr)"
  by (simp add: stop_old_ec2_instances_def Let_def scan_pages_eq print_f_def instance_lines_def
        split: option.split sum.split)

lemma hide_send_slack_notification:
  "send_slack_notification cfg (resecret (\<lambda>k u. []) w) text (map hide tr) =
     map hide (send_slack_notification cfg w text tr)"
  by (simp add: send_slack_notification_def Let_def print_f_def split: http_result.split option.split)

lemma hide_lambda_handler:
  "lambda_handler cfg (resecret (\<lambda>k u. []) w) now (map hide tr) =
     map_prod id (map hide) (lambda_handler cfg w now tr)"
proof -
  let ?t = "print_f ''Lambda started at {now.isoformat()}, DRY_RUN={DRY_RUN}'' [D now, B (DRY_RUN cfg)] tr"
  obtain r t where p: "stop_old_ec2_instances cfg w now ?t = (r, t)" by force
  with hide_stop_old_ec2_instances [of cfg w now ?t]
  have p': "stop_old_ec2_instances cfg (resecret (\<lambda>k u. []) w) now (map hide ?t) = (r, map hide t)"
    by simp
  obtain q s where m: "manage_iam_keys cfg w now t = (q, s)" by force
  with hide_manage_iam_keys [of cfg w now t]
  have m': "manage_iam_keys cfg (resecret (\<lambda>k u. []) w) now (map hide t) = (q, map hide s)"
    by simp
  from p p' m m' show ?thesis
    by (cases r; cases q)
       (simp_all add: lambda_handler_def Let_def hide_print_f hide_send_slack_notification)
qed

text \<open>
  Claim C7. Take any run and the run in the world that differs only in the secret
  values that \<open>create_access_key\<close> returns. The two runs return the same, and their
  traces are equal event by event once the secret field of the payloads written to the
  secret store is blanked: a secret value is nowhere else in the trace. What is printed
  and what is sent to the webhook is the same in both runs.
\<close>

theorem secret_not_in_output:
  "map hide (snd (lambda_handler cfg (resecret g w) now tr)) = map hide (snd (lambda_handler cfg w now tr)) \<and>
   outputs (snd (lambda_handler cfg (resecret g w) now tr)) = outputs (snd (lambda_handler cfg w now tr)) \<and>
   fst (lambda_handler cfg (resecret g w) now tr) = fst (lambda_handler cfg w now tr)"
proof -
  have "map_prod id (map hide) (lambda_handler cfg (resecret g w) now tr) =
        map_prod id (map hide) (lambda_handler cfg w now tr)"
    using hide_lambda_handler [of cfg "resecret g w" now tr] hide_lambda_handler [of cfg w now tr]
    by simp
  then have 1: "map hide (snd (lambda_handler cfg (resecret g w) now tr)) =
                map hide (snd (lambda_handler cfg w now tr))"
    and 2: "fst (lambda_handler cfg (resecret g w) now tr) = fst (lambda_handler cfg w now tr)"
    by (simp_all add: map_prod_def split_beta)
  from 1 have "outputs (map hide (snd (lambda_handler cfg (resecret g w) now tr))) =
                outputs (map hide (snd (lambda_handler cfg w now tr)))" by simp
  then have 3: "outputs (snd (lambda_handler cfg (resecret g w) now tr)) =
                outputs (snd (lambda_handler cfg w now tr))"
    by (simp only: outputs_hide)
  from 1 2 3 show ?thesis by simp
qed

text \<open>The sample account with every secret value replaced by another one.\<close>

theorem secret_not_in_output_witness:
  "outputs (snd (lambda_handler cfg0 (resecret (\<lambda>k u. ''swordfish'') world0) now0 [])) =
   outputs (snd (lambda_handler cfg0 world0 now0 []))"
  using secret_not_in_output [of cfg0 "\<lambda>k u. ''swordfish''" world0 now0 "[]"]
  by simp

end
